theory Spec2Isabelle
  imports Complex_Main
begin

section \<open>JavaScript values used by the wrapper\<close>

text \<open>
  Timestamps (\<^verbatim>\<open>Date.now()\<close>) and configured durations are integer-valued JavaScript
  numbers and are modelled as \<open>int\<close> (milliseconds). Counters that only ever grow from 0
  are \<open>nat\<close>. A field that starts as \<^verbatim>\<open>null\<close> is an \<open>option\<close>.

  \<^verbatim>\<open>stats.averageResponseTime\<close> is the one number that leaves the integers: it is
  divided by \<^verbatim>\<open>stats.totalRequests\<close>, which can be 0. Its model keeps the special
  values of IEEE 754 apart from the finite ones. Finite arithmetic is exact (rational, no
  rounding); the rules for infinities, \<^verbatim>\<open>NaN\<close> and division by zero are those of
  JavaScript. The sign of a zero is not tracked: the only divisor is the counter
  \<^verbatim>\<open>totalRequests\<close>, which is never \<^verbatim>\<open>-0\<close>, and \<^verbatim>\<open>0/0\<close> is
  \<^verbatim>\<open>NaN\<close> for either zero.
\<close>

datatype jsnum = Finite rat | PosInf | NegInf | NaN

fun isFinite :: "jsnum \<Rightarrow> bool" where
  "isFinite (Finite q) = True"
| "isFinite PosInf = False"
| "isFinite NegInf = False"
| "isFinite NaN = False"

text \<open>\<^verbatim>\<open>x * k\<close> for an integer \<open>k\<close>.\<close>

fun jsTimes :: "jsnum \<Rightarrow> int \<Rightarrow> jsnum" where
  "jsTimes (Finite q) k = Finite (q * of_int k)"
| "jsTimes PosInf k = (if k = 0 then NaN else if 0 < k then PosInf else NegInf)"
| "jsTimes NegInf k = (if k = 0 then NaN else if 0 < k then NegInf else PosInf)"
| "jsTimes NaN k = NaN"

text \<open>\<^verbatim>\<open>x + k\<close> for an integer \<open>k\<close>.\<close>

fun jsPlus :: "jsnum \<Rightarrow> int \<Rightarrow> jsnum" where
  "jsPlus (Finite q) k = Finite (q + of_int k)"
| "jsPlus PosInf k = PosInf"
| "jsPlus NegInf k = NegInf"
| "jsPlus NaN k = NaN"

text \<open>\<^verbatim>\<open>x / n\<close> for a counter \<open>n\<close> (a non-negative integer, \<^verbatim>\<open>+0\<close> when zero).\<close>

fun jsDivide :: "jsnum \<Rightarrow> nat \<Rightarrow> jsnum" where
  "jsDivide (Finite q) n =
     (if n = 0 then (if q = 0 then NaN else if 0 < q then PosInf else NegInf)
      else Finite (q / of_nat n))"
| "jsDivide PosInf n = PosInf"
| "jsDivide NegInf n = NegInf"
| "jsDivide NaN n = NaN"

text \<open>
  A thrown error object: its \<^verbatim>\<open>message\<close> and its optional \<^verbatim>\<open>code\<close> property.
\<close>

record jserror =
  message :: string
  code :: "string option"

text \<open>\<^verbatim>\<open>String.prototype.includes\<close>: the argument occurs as a contiguous substring.\<close>

fun startsWith :: "string \<Rightarrow> string \<Rightarrow> bool" where
  "startsWith s [] = True"
| "startsWith [] (c # cs) = False"
| "startsWith (x # xs) (c # cs) = (x = c \<and> startsWith xs cs)"

fun includesStr :: "string \<Rightarrow> string \<Rightarrow> bool" where
  "includesStr [] sub = (sub = [])"
| "includesStr (x # xs) sub = (startsWith (x # xs) sub \<or> includesStr xs sub)"

text \<open>Decimal rendering of an integer inside a template string.\<close>

fun showNat :: "nat \<Rightarrow> string" where
  "showNat n =
     (if n < 10 then [''0123456789'' ! n]
      else showNat (n div 10) @ [''0123456789'' ! (n mod 10)])"

declare showNat.simps [simp del]

definition showInt :: "int \<Rightarrow> string" where
  "showInt i = (if i < 0 then CHR ''-'' # showNat (nat (- i)) else showNat (nat i))"

text \<open>\<^verbatim>\<open>v || d\<close> on an optional number: \<^verbatim>\<open>undefined\<close> and \<^verbatim>\<open>0\<close> are falsy.\<close>

definition orElse :: "int option \<Rightarrow> int \<Rightarrow> int" where
  "orElse v d = (case v of None \<Rightarrow> d | Some x \<Rightarrow> if x = 0 then d else x)"

text \<open>Truthiness of a timestamp field: \<^verbatim>\<open>null\<close> and \<^verbatim>\<open>0\<close> are falsy.\<close>

definition truthy :: "int option \<Rightarrow> bool" where
  "truthy v = (case v of None \<Rightarrow> False | Some x \<Rightarrow> x \<noteq> 0)"

text \<open>A \<^verbatim>\<open>null\<close> timestamp used as a number is 0.\<close>

definition toNumber :: "int option \<Rightarrow> int" where
  "toNumber v = (case v of None \<Rightarrow> 0 | Some x \<Rightarrow> x)"


section \<open>The wrapped asynchronous operation\<close>

text \<open>
  The operation handed to \<^verbatim>\<open>execute\<close> is asynchronous. What the breaker can observe of
  one invocation is when it settles and how: it resolves with a value after \<open>d\<close> ms,
  rejects with an error after \<open>d\<close> ms, or never settles.
\<close>

datatype outcome = Resolves nat string | Rejects nat jserror | Hangs

text \<open>
  \<^verbatim>\<open>setTimeout(f, ms)\<close> in Node.js: a delay below 1 or above 2147483647 is set to 1.
\<close>

definition timerDelay :: "int \<Rightarrow> int" where
  "timerDelay ms = (if ms < 1 \<or> 2147483647 < ms then 1 else ms)"

text \<open>
  \<^verbatim>\<open>Promise.race([fn(), timeoutPromise])\<close>: the first promise to settle decides. The
  timer is registered before \<^verbatim>\<open>fn()\<close> is called, so when both are due at the same
  millisecond the timer settles the race.
\<close>

datatype settled = Fulfilled string | Rejected jserror | TimedOut

fun raceWinner :: "int \<Rightarrow> outcome \<Rightarrow> settled \<times> int" where
  "raceWinner ms (Resolves d v) =
     (if int d < timerDelay ms then (Fulfilled v, int d) else (TimedOut, timerDelay ms))"
| "raceWinner ms (Rejects d e) =
     (if int d < timerDelay ms then (Rejected e, int d) else (TimedOut, timerDelay ms))"
| "raceWinner ms Hangs = (TimedOut, timerDelay ms)"


section \<open>CircuitBreaker\<close>

datatype cb_state = CLOSED | OPEN | HALF_OPEN

text \<open>
  \<^verbatim>\<open>stats\<close>; its field \<^verbatim>\<open>lastFailureTime\<close> is \<open>statsLastFailureTime\<close> here, the
  name \<open>lastFailureTime\<close> being the breaker's own field.
\<close>

record cb_stats =
  totalRequests :: nat
  successfulRequests :: nat
  failedRequests :: nat
  timeouts :: nat
  circuitOpenCount :: nat
  averageResponseTime :: jsnum
  lastSuccessTime :: "int option"
  statsLastFailureTime :: "int option"

text \<open>
  The fields of the class, and \<open>pendingTimers\<close>: the due times of the timers that
  \<^verbatim>\<open>execute\<close> has registered with \<^verbatim>\<open>setTimeout\<close> and that have not fired yet.
  \<^verbatim>\<open>execute\<close> never calls \<^verbatim>\<open>clearTimeout\<close>, so every registered timer fires.
\<close>

record breaker =
  name :: string
  failureThreshold :: int
  timeout :: int
  resetTimeout :: int
  failureCount :: nat
  lastFailureTime :: "int option"
  state :: cb_state
  stats :: cb_stats
  pendingTimers :: "int list"

record cb_options =
  optFailureThreshold :: "int option"
  optTimeout :: "int option"
  optResetTimeout :: "int option"

definition newCircuitBreaker :: "string \<Rightarrow> cb_options \<Rightarrow> breaker" where
  "newCircuitBreaker nm options =
     \<lparr> name = nm,
       failureThreshold = orElse (optFailureThreshold options) 5,
       timeout = orElse (optTimeout options) 30000,
       resetTimeout = orElse (optResetTimeout options) 60000,
       failureCount = 0,
       lastFailureTime = None,
       state = CLOSED,
       stats = \<lparr> totalRequests = 0, successfulRequests = 0, failedRequests = 0,
                 timeouts = 0, circuitOpenCount = 0, averageResponseTime = Finite 0,
                 lastSuccessTime = None, statsLastFailureTime = None \<rparr>,
       pendingTimers = [] \<rparr>"

definition updateAverageResponseTime :: "int \<Rightarrow> breaker \<Rightarrow> breaker" where
  "updateAverageResponseTime newTime cb =
     (let total = totalRequests (stats cb)
      in cb\<lparr>stats := (stats cb)\<lparr>averageResponseTime :=
           jsDivide (jsPlus (jsTimes (averageResponseTime (stats cb)) (int total - 1)) newTime)
             total\<rparr>\<rparr>)"

text \<open>
  \<^verbatim>\<open>onSuccess(responseTime)\<close> and \<^verbatim>\<open>onFailure(error, responseTime)\<close>; the first
  argument of the model is the value \<^verbatim>\<open>Date.now()\<close> returns inside the method.
\<close>

definition onSuccess :: "int \<Rightarrow> int \<Rightarrow> breaker \<Rightarrow> breaker" where
  "onSuccess now responseTime cb =
     (let cb1 = cb\<lparr>failureCount := 0, state := CLOSED\<rparr>;
          cb2 = cb1\<lparr>stats := (stats cb1)\<lparr>successfulRequests := successfulRequests (stats cb1) + 1,
                                           lastSuccessTime := Some now\<rparr>\<rparr>
      in updateAverageResponseTime responseTime cb2)"

definition onFailure :: "int \<Rightarrow> jserror \<Rightarrow> int \<Rightarrow> breaker \<Rightarrow> breaker" where
  "onFailure now err responseTime cb =
     (let cb1 = cb\<lparr>failureCount := failureCount cb + 1\<rparr>;
          cb2 = cb1\<lparr>stats := (stats cb1)\<lparr>failedRequests := failedRequests (stats cb1) + 1,
                                           statsLastFailureTime := Some now\<rparr>,
                    lastFailureTime := Some now\<rparr>;
          cb3 = updateAverageResponseTime responseTime cb2
      in if failureThreshold cb3 \<le> int (failureCount cb3)
         then cb3\<lparr>state := OPEN,
                  stats := (stats cb3)\<lparr>circuitOpenCount := circuitOpenCount (stats cb3) + 1\<rparr>\<rparr>
         else cb3)"

text \<open>
  The event loop runs the callback of every timer that is due: each one increments
  \<^verbatim>\<open>stats.timeouts\<close> and rejects its promise (which has no further effect once the
  race has been settled). The model runs the due timers wherever it advances the clock:
  when the race in \<^verbatim>\<open>execute\<close> settles, after a sleep, and between two calls.
\<close>

definition runTimers :: "int \<Rightarrow> breaker \<Rightarrow> breaker" where
  "runTimers now cb =
     cb\<lparr>stats := (stats cb)\<lparr>timeouts :=
           timeouts (stats cb) + length (filter (\<lambda>t. t \<le> now) (pendingTimers cb))\<rparr>,
        pendingTimers := filter (\<lambda>t. \<not> t \<le> now) (pendingTimers cb)\<rparr>"

definition circuitOpenError :: "int \<Rightarrow> breaker \<Rightarrow> jserror" where
  "circuitOpenError now cb =
     \<lparr> message = ''Circuit breaker OPEN for '' @ name cb @ ''. Next retry in '' @
         showInt (- ((- (resetTimeout cb - (now - toNumber (lastFailureTime cb)))) div 1000)) @ ''s'',
       code = Some ''CIRCUIT_OPEN'' \<rparr>"

definition timeoutError :: "breaker \<Rightarrow> jserror" where
  "timeoutError cb =
     \<lparr> message = ''Timeout after '' @ showInt (timeout cb) @ ''ms for '' @ name cb,
       code = None \<rparr>"

text \<open>
  The first part of \<^verbatim>\<open>execute\<close>: an OPEN circuit either throws the circuit-open error
  or moves to HALF_OPEN.
\<close>

definition checkCircuit :: "int \<Rightarrow> breaker \<Rightarrow> jserror + breaker" where
  "checkCircuit now cb =
     (if state cb = OPEN then
        (if now - toNumber (lastFailureTime cb) < resetTimeout cb
         then Inl (circuitOpenError now cb)
         else Inr (cb\<lparr>state := HALF_OPEN\<rparr>))
      else Inr cb)"

text \<open>
  What one call of \<^verbatim>\<open>execute(fn)\<close> does: \<open>result\<close> is the value returned (\<open>Inr\<close>) or
  the error thrown (\<open>Inl\<close>), \<open>finishedAt\<close> the time at which the call settles,
  \<open>invoked\<close> whether \<^verbatim>\<open>fn\<close> was called, \<open>after\<close> the breaker afterwards.
\<close>

record execution =
  result :: "jserror + string"
  finishedAt :: int
  invoked :: bool
  after :: breaker

text \<open>The first statement of \<^verbatim>\<open>execute\<close>: \<^verbatim>\<open>this.stats.totalRequests++\<close>.\<close>

definition countRequest :: "breaker \<Rightarrow> breaker" where
  "countRequest cb = cb\<lparr>stats := (stats cb)\<lparr>totalRequests := totalRequests (stats cb) + 1\<rparr>\<rparr>"

text \<open>
  \<^verbatim>\<open>execute(fn)\<close> called at time \<open>now\<close>, where \<open>fn\<close>, if it is invoked, behaves as
  \<open>oc\<close>.
\<close>

definition execute :: "outcome \<Rightarrow> int \<Rightarrow> breaker \<Rightarrow> execution" where
  "execute oc now cb =
     (let cb1 = countRequest cb
      in case checkCircuit now cb1 of
           Inl err \<Rightarrow> \<lparr> result = Inl err, finishedAt = now, invoked = False, after = cb1 \<rparr>
         | Inr cb2 \<Rightarrow>
             (let startTime = now;
                  cb3 = cb2\<lparr>pendingTimers := (startTime + timerDelay (timeout cb2)) # pendingTimers cb2\<rparr>;
                  (winner, elapsed) = raceWinner (timeout cb3) oc;
                  end = startTime + elapsed;
                  cb4 = runTimers end cb3
              in case winner of
                   Fulfilled v \<Rightarrow>
                     \<lparr> result = Inr v, finishedAt = end, invoked = True,
                       after = onSuccess end (end - startTime) cb4 \<rparr>
                 | Rejected err \<Rightarrow>
                     \<lparr> result = Inl err, finishedAt = end, invoked = True,
                       after = onFailure end err (end - startTime) cb4 \<rparr>
                 | TimedOut \<Rightarrow>
                     \<lparr> result = Inl (timeoutError cb4), finishedAt = end, invoked = True,
                       after = onFailure end (timeoutError cb4) (end - startTime) cb4 \<rparr>))"

text \<open>
  Consecutive calls of \<^verbatim>\<open>execute\<close> on one breaker, each awaited before the next is
  made: the \<open>k\<close>-th call is made at time \<open>fst (cs ! k)\<close> with an operation that
  behaves as \<open>snd (cs ! k)\<close>.
\<close>

fun executeAll :: "(int \<times> outcome) list \<Rightarrow> breaker \<Rightarrow> breaker" where
  "executeAll [] cb = cb"
| "executeAll (c # cs) cb = executeAll cs (after (execute (snd c) (fst c) cb))"

text \<open>
  An invocation that would make \<^verbatim>\<open>execute\<close> succeed on a breaker whose timeout is
  \<open>ms\<close>: the operation resolves before the timer is due.
\<close>

fun succeedsWithin :: "int \<Rightarrow> outcome \<Rightarrow> bool" where
  "succeedsWithin ms (Resolves d v) = (int d < timerDelay ms)"
| "succeedsWithin ms (Rejects d e) = False"
| "succeedsWithin ms Hangs = False"


section \<open>RobustGtfsWrapper\<close>

text \<open>
  The module \<^verbatim>\<open>environment\<close> of \<^verbatim>\<open>../utils\<close> is a parameter of the model. The
  numeric variables are given as \<^verbatim>\<open>parseInt\<close> returns them (\<open>None\<close> for
  \<^verbatim>\<open>NaN\<close>).
\<close>

record environment =
  GTFS_REALTIME_TIMEOUT :: "int option"
  GTFS_REALTIME_RETRIES :: "int option"
  GTFS_CB_FAILURE_THRESHOLD :: "int option"
  GTFS_CB_RESET_TIMEOUT :: "int option"
  GTFS_DETAILED_LOGGING :: "string option"
  NODE_ENV :: "string option"
  GTFS_DISABLE_ROBUST_WRAPPER :: "string option"

text \<open>\<^verbatim>\<open>this.config\<close>; \<open>configTimeout\<close> is its field \<^verbatim>\<open>timeout\<close>.\<close>

record config =
  configTimeout :: int
  retries :: int
  circuitBreakerFailureThreshold :: int
  circuitBreakerResetTimeout :: int
  enableDetailedLogging :: bool

text \<open>
  The fields of \<^verbatim>\<open>gtfsConfig\<close> that \<^verbatim>\<open>detectNativeCapabilities\<close> reads;
  \<open>gtfsTimeout\<close> is its field \<^verbatim>\<open>timeout\<close>.
\<close>

record gtfs_config =
  realtimeTimeout :: "int option"
  gtfsTimeout :: "int option"
  downloadTimeout :: "int option"

text \<open>
  Operation identities are the template strings \<^verbatim>\<open>gtfs-rt-${Date.now()}\<close> and
  \<^verbatim>\<open>native-${Date.now()}\<close>; each is determined by its prefix and its timestamp.
\<close>

datatype opid = GtfsRt int | Native int

text \<open>
  \<open>mainBreaker\<close> and \<open>networkBreaker\<close> are \<^verbatim>\<open>circuitBreakers.main\<close> and
  \<^verbatim>\<open>circuitBreakers.network\<close>.
\<close>

record wrapper =
  config :: config
  nativeTimeoutSupported :: bool
  wrapperEnabled :: bool
  mainBreaker :: breaker
  networkBreaker :: breaker
  lastSuccessfulUpdate :: "int option"
  consecutiveFailures :: nat
  retryTracker :: "opid \<rightharpoonup> nat"

definition newRobustGtfsWrapper :: "environment \<Rightarrow> wrapper" where
  "newRobustGtfsWrapper env =
     (let cfg = \<lparr> configTimeout = orElse (GTFS_REALTIME_TIMEOUT env) 30000,
                  retries = orElse (GTFS_REALTIME_RETRIES env) 2,
                  circuitBreakerFailureThreshold = orElse (GTFS_CB_FAILURE_THRESHOLD env) 5,
                  circuitBreakerResetTimeout = orElse (GTFS_CB_RESET_TIMEOUT env) 60000,
                  enableDetailedLogging =
                    (GTFS_DETAILED_LOGGING env = Some ''true'' \<or> NODE_ENV env = Some ''development'') \<rparr>
      in \<lparr> config = cfg,
           nativeTimeoutSupported = False,
           wrapperEnabled = True,
           mainBreaker = newCircuitBreaker ''GTFS-Realtime-Main''
             \<lparr> optFailureThreshold = Some (circuitBreakerFailureThreshold cfg),
               optTimeout = Some (configTimeout cfg),
               optResetTimeout = Some (circuitBreakerResetTimeout cfg) \<rparr>,
           networkBreaker = newCircuitBreaker ''GTFS-Realtime-Network''
             \<lparr> optFailureThreshold = Some 3,
               optTimeout = Some (configTimeout cfg),
               optResetTimeout = Some (circuitBreakerResetTimeout cfg) \<rparr>,
           lastSuccessfulUpdate = None,
           consecutiveFailures = 0,
           retryTracker = Map.empty \<rparr>)"

definition detectNativeCapabilities :: "environment \<Rightarrow> gtfs_config option \<Rightarrow> wrapper \<Rightarrow> wrapper" where
  "detectNativeCapabilities env gtfsConfig w =
     (let w1 = (case gtfsConfig of
                  None \<Rightarrow> w
                | Some c \<Rightarrow>
                    if truthy (realtimeTimeout c) \<or> truthy (gtfsTimeout c) \<or> truthy (downloadTimeout c)
                    then w\<lparr>nativeTimeoutSupported := True\<rparr> else w)
      in if GTFS_DISABLE_ROBUST_WRAPPER env = Some ''true''
         then w1\<lparr>wrapperEnabled := False\<rparr> else w1)"

text \<open>
  The world outside the wrapper: the clock, the number of times
  \<^verbatim>\<open>gtfs.updateGtfsRealtime\<close> has been invoked, and the retry announcements written
  by \<^verbatim>\<open>console.log\<close> in \<^verbatim>\<open>handleUpdateError\<close> (operation identity, delay,
  attempt number), oldest first.
\<close>

record world =
  clock :: int
  calls :: nat
  retryLog :: "(opid \<times> int \<times> nat) list"

text \<open>
  The object \<^verbatim>\<open>gtfs\<close>: \<open>gtfs k\<close> is how its \<^verbatim>\<open>updateGtfsRealtime\<close> behaves when
  it is invoked for the \<open>k\<close>-th time (counting from 0).
\<close>

type_synonym gtfs = "nat \<Rightarrow> outcome"

text \<open>
  The object that \<^verbatim>\<open>getGracefulFallback\<close> returns; \<open>fallbackMessage\<close> is its
  property \<^verbatim>\<open>message\<close>.
\<close>

record fallback =
  success :: bool
  fallbackApplied :: bool
  fallbackMessage :: string
  timeSinceLastSuccess :: "int option"

text \<open>
  What \<^verbatim>\<open>updateGtfsRealtime\<close> returns: the value of the wrapped operation, or the
  graceful-fallback object.
\<close>

datatype update_result = Updated string | Fallback fallback

text \<open>
  A completed call: the value returned (\<open>Inr\<close>) or the error thrown (\<open>Inl\<close>), with the
  world and the wrapper afterwards. \<open>None\<close> stands for a call that has not completed.
\<close>

type_synonym completion = "((jserror + update_result) \<times> world \<times> wrapper) option"

datatype breaker_ref = MainBreaker | NetworkBreaker

fun getBreaker :: "breaker_ref \<Rightarrow> wrapper \<Rightarrow> breaker" where
  "getBreaker MainBreaker w = mainBreaker w"
| "getBreaker NetworkBreaker w = networkBreaker w"

fun putBreaker :: "breaker_ref \<Rightarrow> breaker \<Rightarrow> wrapper \<Rightarrow> wrapper" where
  "putBreaker MainBreaker cb w = w\<lparr>mainBreaker := cb\<rparr>"
| "putBreaker NetworkBreaker cb w = w\<lparr>networkBreaker := cb\<rparr>"

text \<open>Time has advanced to \<open>now\<close>: the due timers of both breakers fire.\<close>

definition tick :: "int \<Rightarrow> wrapper \<Rightarrow> wrapper" where
  "tick now w = w\<lparr>mainBreaker := runTimers now (mainBreaker w),
                  networkBreaker := runTimers now (networkBreaker w)\<rparr>"

definition onUpdateFailure :: "wrapper \<Rightarrow> wrapper" where
  "onUpdateFailure w = w\<lparr>consecutiveFailures := consecutiveFailures w + 1\<rparr>"

definition selectCircuitBreaker :: "wrapper \<Rightarrow> breaker_ref" where
  "selectCircuitBreaker w = (if 2 \<le> consecutiveFailures w then NetworkBreaker else MainBreaker)"

definition onUpdateSuccess :: "int \<Rightarrow> opid \<Rightarrow> wrapper \<Rightarrow> wrapper" where
  "onUpdateSuccess now operationId w =
     w\<lparr>lastSuccessfulUpdate := Some now,
       consecutiveFailures := 0,
       retryTracker := (retryTracker w)(operationId := None)\<rparr>"

datatype error_type =
  CIRCUIT_BREAKER_ERROR | NETWORK_ERROR | TIMEOUT_ERROR | DATA_FORMAT_ERROR | UNKNOWN_ERROR

definition classifyError :: "jserror \<Rightarrow> error_type" where
  "classifyError err =
     (if code err = Some ''CIRCUIT_OPEN'' then CIRCUIT_BREAKER_ERROR
      else if includesStr (message err) ''fetch failed'' \<or> includesStr (message err) ''ECONNREFUSED''
        then NETWORK_ERROR
      else if includesStr (message err) ''Timeout'' then TIMEOUT_ERROR
      else if includesStr (message err) ''CIRCUIT_OPEN'' then CIRCUIT_BREAKER_ERROR
      else if includesStr (message err) ''gtfsRealtimeVersion'' \<or> includesStr (message err) ''protobuf''
        then DATA_FORMAT_ERROR
      else UNKNOWN_ERROR)"

definition shouldRetry :: "jserror \<Rightarrow> error_type \<Rightarrow> bool" where
  "shouldRetry err errorType =
     (if errorType = CIRCUIT_BREAKER_ERROR then False
      else if errorType = NETWORK_ERROR \<or> errorType = TIMEOUT_ERROR then True
      else if errorType = DATA_FORMAT_ERROR then False
      else True)"

definition getRetryDelay :: "nat \<Rightarrow> int" where
  "getRetryDelay attemptNumber = min (2 ^ attemptNumber * 1000) 30000"

definition getCurrentRetryCount :: "opid \<Rightarrow> wrapper \<Rightarrow> nat \<times> wrapper" where
  "getCurrentRetryCount operationId w =
     (let count = (case retryTracker w operationId of None \<Rightarrow> 0 | Some c \<Rightarrow> c)
      in (count, w\<lparr>retryTracker := (retryTracker w)(operationId \<mapsto> count + 1)\<rparr>))"

definition getGracefulFallback :: "int \<Rightarrow> wrapper \<Rightarrow> fallback" where
  "getGracefulFallback now w =
     \<lparr> success = False,
       fallbackApplied = True,
       fallbackMessage = ''Using cached realtime data due to update failures'',
       timeSinceLastSuccess =
         (if truthy (lastSuccessfulUpdate w)
          then Some (now - toNumber (lastSuccessfulUpdate w)) else None) \<rparr>"

text \<open>\<^verbatim>\<open>await this.sleep(ms)\<close>: the clock advances until the timer is due.\<close>

definition sleep :: "int \<Rightarrow> world \<Rightarrow> world" where
  "sleep ms wd = wd\<lparr>clock := clock wd + timerDelay ms\<rparr>"

text \<open>
  \<^verbatim>\<open>fullProtectionMode\<close> and \<^verbatim>\<open>handleUpdateError\<close> call each other. The first
  argument bounds the number of times \<^verbatim>\<open>fullProtectionMode\<close> may still be entered;
  a call that needs more entries has not completed (\<open>None\<close>).
\<close>

fun fullProtectionMode :: "nat \<Rightarrow> gtfs \<Rightarrow> world \<Rightarrow> wrapper \<Rightarrow> completion"
  and handleUpdateError :: "nat \<Rightarrow> jserror \<Rightarrow> opid \<Rightarrow> gtfs \<Rightarrow> world \<Rightarrow> wrapper \<Rightarrow> completion"
where
  "fullProtectionMode 0 gtfs wd w = None"
| "fullProtectionMode (Suc n) gtfs wd w =
     (let operationId = GtfsRt (clock wd);
          circuitBreaker = selectCircuitBreaker w;
          ex = execute (gtfs (calls wd)) (clock wd) (getBreaker circuitBreaker w);
          wd1 = wd\<lparr>clock := finishedAt ex,
                   calls := (if invoked ex then calls wd + 1 else calls wd)\<rparr>;
          w1 = tick (finishedAt ex) (putBreaker circuitBreaker (after ex) w)
      in case result ex of
           Inr v \<Rightarrow> Some (Inr (Updated v), wd1, onUpdateSuccess (clock wd1) operationId w1)
         | Inl err \<Rightarrow> handleUpdateError n err operationId gtfs wd1 w1)"
| "handleUpdateError n err operationId gtfs wd w =
     (let errorType = classifyError err;
          willRetry = shouldRetry err errorType
      in if code err = Some ''CIRCUIT_OPEN'' then
           (let w1 = w\<lparr>consecutiveFailures := consecutiveFailures w + 1\<rparr>
            in Some (Inr (Fallback (getGracefulFallback (clock wd) w1)), wd, w1))
         else
           (let (currentRetryCount, w1) = getCurrentRetryCount operationId w
            in if willRetry \<and> int currentRetryCount < retries (config w1) then
                 (let delay = getRetryDelay (currentRetryCount + 1);
                      wd1 = wd\<lparr>retryLog := retryLog wd @ [(operationId, delay, currentRetryCount + 1)]\<rparr>;
                      wd2 = sleep delay wd1;
                      w2 = tick (clock wd2) w1
                  in fullProtectionMode n gtfs wd2 w2)
               else
                 (let w2 = w1\<lparr>consecutiveFailures := consecutiveFailures w1 + 1\<rparr>;
                      w3 = w2\<lparr>retryTracker := (retryTracker w2)(operationId := None)\<rparr>
                  in Some (Inr (Fallback (getGracefulFallback (clock wd) w3)), wd, w3))))"

text \<open>
  \<^verbatim>\<open>lightweightMode\<close>: the operation is awaited without a timer, so a call whose
  operation never settles never completes.
\<close>

definition lightweightMode :: "gtfs \<Rightarrow> world \<Rightarrow> wrapper \<Rightarrow> completion" where
  "lightweightMode gtfs wd w =
     (let startTime = clock wd
      in case gtfs (calls wd) of
           Resolves d v \<Rightarrow>
             (let now = startTime + int d;
                  wd1 = wd\<lparr>clock := now, calls := calls wd + 1\<rparr>;
                  w1 = onUpdateSuccess now (Native now) (tick now w);
                  w2 = w1\<lparr>mainBreaker := onSuccess now (now - startTime) (mainBreaker w1)\<rparr>
              in Some (Inr (Updated v), wd1, w2))
         | Rejects d err \<Rightarrow>
             (let now = startTime + int d;
                  wd1 = wd\<lparr>clock := now, calls := calls wd + 1\<rparr>;
                  w1 = onUpdateFailure (tick now w);
                  w2 = w1\<lparr>mainBreaker := onFailure now err (now - startTime) (mainBreaker w1)\<rparr>
              in Some (Inl err, wd1, w2))
         | Hangs \<Rightarrow> None)"

text \<open>
  \<^verbatim>\<open>updateGtfsRealtime(gtfs, gtfsConfig)\<close>. The branch taken when the wrapper is
  disabled awaits the operation directly.
\<close>

definition updateGtfsRealtime ::
    "nat \<Rightarrow> environment \<Rightarrow> gtfs \<Rightarrow> gtfs_config option \<Rightarrow> world \<Rightarrow> wrapper \<Rightarrow> completion" where
  "updateGtfsRealtime n env gtfs gtfsConfig wd w =
     (let w1 = (if lastSuccessfulUpdate w = None
                then detectNativeCapabilities env gtfsConfig w else w)
      in if \<not> wrapperEnabled w1 then
           (case gtfs (calls wd) of
              Resolves d v \<Rightarrow>
                Some (Inr (Updated v), wd\<lparr>clock := clock wd + int d, calls := calls wd + 1\<rparr>,
                      tick (clock wd + int d) w1)
            | Rejects d err \<Rightarrow>
                Some (Inl err, wd\<lparr>clock := clock wd + int d, calls := calls wd + 1\<rparr>,
                      tick (clock wd + int d) w1)
            | Hangs \<Rightarrow> None)
         else if nativeTimeoutSupported w1 then lightweightMode gtfs wd w1
         else fullProtectionMode n gtfs wd w1)"

text \<open>The parts of a completed call.\<close>

definition resultOf :: "completion \<Rightarrow> (jserror + update_result) option" where
  "resultOf c = map_option fst c"

definition worldOf :: "completion \<Rightarrow> world option" where
  "worldOf c = map_option (fst \<circ> snd) c"

definition wrapperOf :: "completion \<Rightarrow> wrapper option" where
  "wrapperOf c = map_option (snd \<circ> snd) c"

text \<open>The retry counter that a completed call leaves under an operation identity.\<close>

definition trackerEntry :: "completion \<Rightarrow> opid \<Rightarrow> nat option" where
  "trackerEntry c operationId =
     (case wrapperOf c of None \<Rightarrow> None | Some w \<Rightarrow> retryTracker w operationId)"

text \<open>
  A caller that awaits one call and then, once the clock shows \<open>later\<close>, makes the next
  one, whether the first returned or threw.
\<close>

definition thenAt :: "completion \<Rightarrow> int \<Rightarrow> (world \<Rightarrow> wrapper \<Rightarrow> completion) \<Rightarrow> completion" where
  "thenAt c later next =
     (case c of
        None \<Rightarrow> None
      | Some (r, wd, w) \<Rightarrow> next (wd\<lparr>clock := later\<rparr>) (tick later w))"

text \<open>
  What a caller that awaits an invocation directly gets from it: the value it resolves
  with, or the error it rejects with, thrown.
\<close>

fun awaited :: "outcome \<Rightarrow> (jserror + update_result) option" where
  "awaited (Resolves d v) = Some (Inr (Updated v))"
| "awaited (Rejects d e) = Some (Inl e)"
| "awaited Hangs = None"

fun resolves :: "outcome \<Rightarrow> bool" where
  "resolves (Resolves d v) = True"
| "resolves (Rejects d e) = False"
| "resolves Hangs = False"

fun rejects :: "outcome \<Rightarrow> bool" where
  "rejects (Resolves d v) = False"
| "rejects (Rejects d e) = True"
| "rejects Hangs = False"

text \<open>
  A caller that makes one call of \<^verbatim>\<open>lightweightMode\<close> after the other, awaiting each
  (whether it returns or throws) and letting \<open>gap\<close> ms pass before the next. It keeps
  what each call returned or threw, in the order of the calls.
\<close>

fun lightweightCalls ::
    "nat list \<Rightarrow> gtfs \<Rightarrow> world \<Rightarrow> wrapper
       \<Rightarrow> ((jserror + update_result) list \<times> world \<times> wrapper) option" where
  "lightweightCalls [] gtfs wd w = Some ([], wd, w)"
| "lightweightCalls (gap # gaps) gtfs wd w =
     (case lightweightMode gtfs (wd\<lparr>clock := clock wd + int gap\<rparr>) (tick (clock wd + int gap) w) of
        None \<Rightarrow> None
      | Some (r, wd1, w1) \<Rightarrow>
          (case lightweightCalls gaps gtfs wd1 w1 of
             None \<Rightarrow> None
           | Some (rs, wd2, w2) \<Rightarrow> Some (r # rs, wd2, w2)))"

datatype health = HEALTHY | WARNING | CRITICAL | DEGRADED

text \<open>
  \<^verbatim>\<open>getHealthStatus()\<close> called at time \<open>now\<close>. Of the object it returns the model
  keeps \<^verbatim>\<open>status\<close> and \<^verbatim>\<open>timestamp\<close>; the other properties are copies of the
  wrapper's counters and of the breakers' statistics.
\<close>

record health_status =
  status :: health
  timestamp :: int

definition getHealthStatus :: "int \<Rightarrow> wrapper \<Rightarrow> health_status" where
  "getHealthStatus now w =
     (let overallHealth0 = HEALTHY;
          hasOpenCircuit = (state (mainBreaker w) = OPEN \<or> state (networkBreaker w) = OPEN);
          overallHealth1 =
            (if hasOpenCircuit then CRITICAL
             else if 5 \<le> consecutiveFailures w then CRITICAL
             else if 1 \<le> consecutiveFailures w then WARNING
             else overallHealth0);
          overallHealth2 =
            (if truthy (lastSuccessfulUpdate w) \<and> 300000 < now - toNumber (lastSuccessfulUpdate w)
             then DEGRADED else overallHealth1)
      in \<lparr> status = overallHealth2, timestamp = now \<rparr>)"


section \<open>Retry announcements\<close>

text \<open>
  A retry announcement that follows the retry policy for a limit of \<open>maxRetries\<close>: the
  attempt number is the attempts-so-far counter plus one, the counter was below the limit,
  and the announced delay is the capped exponential backoff for that attempt number.
\<close>

fun wellAnnounced :: "int \<Rightarrow> opid \<times> int \<times> nat \<Rightarrow> bool" where
  "wellAnnounced maxRetries (operationId, delay, attempt) =
     (1 \<le> attempt \<and> int attempt \<le> maxRetries \<and> delay = min (2 ^ attempt * 1000) 30000)"

text \<open>
  Between the worlds \<open>wd\<close> and \<open>wd'\<close> every retry was announced as the policy
  prescribes, the announced delays have passed, and the wrapped operation was invoked at
  most once per announcement, plus \<open>k\<close> times.
\<close>

definition retriesAsAnnounced :: "int \<Rightarrow> nat \<Rightarrow> world \<Rightarrow> world \<Rightarrow> bool" where
  "retriesAsAnnounced maxRetries k wd wd' =
     (\<exists>evs. retryLog wd' = retryLog wd @ evs
          \<and> list_all (wellAnnounced maxRetries) evs
          \<and> calls wd' \<le> calls wd + length evs + k
          \<and> clock wd + sum_list (map (fst \<circ> snd) evs) \<le> clock wd')"


section \<open>Sample inputs\<close>

text \<open>
  The breaker of the scenario in the specification: three failures open it, it stays open
  for 2000 ms, and it gives an operation 1000 ms.
\<close>

definition sampleBreaker :: breaker where
  "sampleBreaker = newCircuitBreaker ''test-circuit''
     \<lparr> optFailureThreshold = Some 3, optTimeout = Some 1000, optResetTimeout = Some 2000 \<rparr>"

definition fetchFailed :: jserror where
  "fetchFailed = \<lparr> message = ''fetch failed'', code = None \<rparr>"

text \<open>Three calls, made at 0, 100 and 200 ms, that each reject after 10 ms.\<close>

definition threeFailures :: "(int \<times> outcome) list" where
  "threeFailures = [(0, Rejects 10 fetchFailed), (100, Rejects 10 fetchFailed),
                    (200, Rejects 10 fetchFailed)]"


text \<open>No variable of the environment is set: every setting has its default.\<close>

definition defaultEnvironment :: environment where
  "defaultEnvironment =
     \<lparr> GTFS_REALTIME_TIMEOUT = None, GTFS_REALTIME_RETRIES = None,
       GTFS_CB_FAILURE_THRESHOLD = None, GTFS_CB_RESET_TIMEOUT = None,
       GTFS_DETAILED_LOGGING = None, NODE_ENV = None, GTFS_DISABLE_ROBUST_WRAPPER = None \<rparr>"

definition startOfDay :: world where
  "startOfDay = \<lparr> clock = 1000, calls = 0, retryLog = [] \<rparr>"

definition dataFormatError :: jserror where
  "dataFormatError = \<lparr> message = ''gtfsRealtimeVersion not supported'', code = None \<rparr>"

text \<open>Feeds: one that always rejects with a network error after 10 ms, and so on.\<close>

definition alwaysFetchFailed :: gtfs where
  "alwaysFetchFailed = (\<lambda>k. Rejects 10 fetchFailed)"

definition alwaysDataFormatError :: gtfs where
  "alwaysDataFormatError = (\<lambda>k. Rejects 10 dataFormatError)"

definition failsOnceThenResolves :: gtfs where
  "failsOnceThenResolves = (\<lambda>k. if k = 0 then Rejects 10 fetchFailed else Resolves 10 ''ok'')"

definition resolvesOnceThenDataFormatError :: gtfs where
  "resolvesOnceThenDataFormatError =
     (\<lambda>k. if k = 0 then Resolves 10 ''ok'' else Rejects 10 dataFormatError)"

text \<open>Feed configurations without and with a native timeout.\<close>

definition withoutNativeTimeout :: gtfs_config where
  "withoutNativeTimeout = \<lparr> realtimeTimeout = None, gtfsTimeout = None, downloadTimeout = None \<rparr>"

definition withDownloadTimeout :: gtfs_config where
  "withDownloadTimeout = \<lparr> realtimeTimeout = None, gtfsTimeout = None, downloadTimeout = Some 30000 \<rparr>"

text \<open>
  One call in full-protection mode on a new wrapper with the default settings (two
  retries, main breaker opening after five failures and staying open for 60 s), against
  the feed that always rejects with a network error.
\<close>

definition persistentFailureRun :: completion where
  "persistentFailureRun =
     fullProtectionMode 10 alwaysFetchFailed startOfDay (newRobustGtfsWrapper defaultEnvironment)"

text \<open>The same against the feed whose first invocation fails and whose second resolves.\<close>

definition recoveredRun :: completion where
  "recoveredRun =
     fullProtectionMode 10 failsOnceThenResolves startOfDay (newRobustGtfsWrapper defaultEnvironment)"

text \<open>The same against the feed that always rejects with a malformed-payload error.\<close>

definition dataFormatRun :: completion where
  "dataFormatRun =
     fullProtectionMode 10 alwaysDataFormatError startOfDay (newRobustGtfsWrapper defaultEnvironment)"

text \<open>
  A first call that succeeds (settling at 1010 ms), followed at 100000 ms by a call that
  fails with a malformed-payload error.
\<close>

definition failureAfterSuccessRun :: completion where
  "failureAfterSuccessRun =
     thenAt (fullProtectionMode 10 resolvesOnceThenDataFormatError startOfDay
               (newRobustGtfsWrapper defaultEnvironment))
       100000 (fullProtectionMode 10 resolvesOnceThenDataFormatError)"

text \<open>
  Two calls of \<^verbatim>\<open>updateGtfsRealtime\<close> on a new wrapper: the first with a feed
  configuration without a native timeout, which fails; the second, at 60000 ms, with a
  configuration that has one.
\<close>

definition firstUpdate :: completion where
  "firstUpdate =
     updateGtfsRealtime 10 defaultEnvironment alwaysDataFormatError (Some withoutNativeTimeout)
       startOfDay (newRobustGtfsWrapper defaultEnvironment)"

definition secondUpdate :: completion where
  "secondUpdate =
     thenAt firstUpdate 60000
       (updateGtfsRealtime 10 defaultEnvironment alwaysDataFormatError (Some withDownloadTimeout))"

text \<open>
  A wrapper whose last success dates from 1000 ms and that has failed five times since.
\<close>

definition staleWrapper :: wrapper where
  "staleWrapper =
     (newRobustGtfsWrapper defaultEnvironment)
       \<lparr>lastSuccessfulUpdate := Some 1000, consecutiveFailures := 5\<rparr>"


section \<open>Facts about one call of execute\<close>

lemma raceWinner_fails:
  "\<not> succeedsWithin ms oc \<Longrightarrow> fst (raceWinner ms oc) = TimedOut \<or> (\<exists>e. fst (raceWinner ms oc) = Rejected e)"
  by (cases oc) auto

lemma onFailure_fields [simp]:
  "failureCount (onFailure t e rt cb) = failureCount cb + 1"
  "failureThreshold (onFailure t e rt cb) = failureThreshold cb"
  "timeout (onFailure t e rt cb) = timeout cb"
  "resetTimeout (onFailure t e rt cb) = resetTimeout cb"
  "name (onFailure t e rt cb) = name cb"
  "lastFailureTime (onFailure t e rt cb) = Some t"
  "state (onFailure t e rt cb) = (if failureThreshold cb \<le> int (failureCount cb) + 1 then OPEN else state cb)"
  "circuitOpenCount (stats (onFailure t e rt cb)) =
     (if failureThreshold cb \<le> int (failureCount cb) + 1 then circuitOpenCount (stats cb) + 1 else circuitOpenCount (stats cb))"
  by (simp_all add: onFailure_def updateAverageResponseTime_def Let_def)

lemma runTimers_fields [simp]:
  "failureCount (runTimers t cb) = failureCount cb"
  "failureThreshold (runTimers t cb) = failureThreshold cb"
  "timeout (runTimers t cb) = timeout cb"
  "resetTimeout (runTimers t cb) = resetTimeout cb"
  "name (runTimers t cb) = name cb"
  "lastFailureTime (runTimers t cb) = lastFailureTime cb"
  "state (runTimers t cb) = state cb"
  "circuitOpenCount (stats (runTimers t cb)) = circuitOpenCount (stats cb)"
  by (simp_all add: runTimers_def)

lemma countRequest_fields [simp]:
  "failureCount (countRequest cb) = failureCount cb"
  "failureThreshold (countRequest cb) = failureThreshold cb"
  "timeout (countRequest cb) = timeout cb"
  "resetTimeout (countRequest cb) = resetTimeout cb"
  "name (countRequest cb) = name cb"
  "lastFailureTime (countRequest cb) = lastFailureTime cb"
  "state (countRequest cb) = state cb"
  "circuitOpenCount (stats (countRequest cb)) = circuitOpenCount (stats cb)"
  by (simp_all add: countRequest_def)

lemma execute_failure:
  assumes "state cb \<noteq> OPEN \<or> resetTimeout cb \<le> now - toNumber (lastFailureTime cb)"
    and "\<not> succeedsWithin (timeout cb) oc"
  shows "invoked (execute oc now cb)"
    and "failureCount (after (execute oc now cb)) = failureCount cb + 1"
    and "failureThreshold (after (execute oc now cb)) = failureThreshold cb"
    and "timeout (after (execute oc now cb)) = timeout cb"
    and "resetTimeout (after (execute oc now cb)) = resetTimeout cb"
    and "state (after (execute oc now cb)) =
           (if failureThreshold cb \<le> int (failureCount cb) + 1 then OPEN
            else if state cb = OPEN then HALF_OPEN else state cb)"
    and "circuitOpenCount (stats (after (execute oc now cb))) =
           (if failureThreshold cb \<le> int (failureCount cb) + 1
            then circuitOpenCount (stats cb) + 1 else circuitOpenCount (stats cb))"
  using assms raceWinner_fails[of "timeout cb" oc]
  by (auto simp: execute_def checkCircuit_def Let_def split: prod.splits settled.splits)


lemma onSuccess_fields [simp]:
  "failureCount (onSuccess t rt cb) = 0"
  "state (onSuccess t rt cb) = CLOSED"
  "failureThreshold (onSuccess t rt cb) = failureThreshold cb"
  "timeout (onSuccess t rt cb) = timeout cb"
  "resetTimeout (onSuccess t rt cb) = resetTimeout cb"
  by (simp_all add: onSuccess_def updateAverageResponseTime_def Let_def)

lemma execute_success:
  assumes "state cb \<noteq> OPEN \<or> resetTimeout cb \<le> now - toNumber (lastFailureTime cb)"
    and "succeedsWithin (timeout cb) oc"
  shows "invoked (execute oc now cb)"
    and "failureCount (after (execute oc now cb)) = 0"
    and "state (after (execute oc now cb)) = CLOSED"
    and "\<exists>v. result (execute oc now cb) = Inr v"
  using assms
  by (cases oc; auto simp: execute_def checkCircuit_def Let_def split: prod.splits settled.splits)+

lemma executeAll_append:
  "executeAll (cs @ ds) cb = executeAll ds (executeAll cs cb)"
  by (induction cs arbitrary: cb) auto

lemma executeAll_failures_below_threshold:
  assumes "state cb = CLOSED"
    and "\<forall>c \<in> set cs. \<not> succeedsWithin (timeout cb) (snd c)"
    and "int (failureCount cb) + int (length cs) < failureThreshold cb"
  shows "state (executeAll cs cb) = CLOSED
       \<and> failureCount (executeAll cs cb) = failureCount cb + length cs
       \<and> circuitOpenCount (stats (executeAll cs cb)) = circuitOpenCount (stats cb)
       \<and> failureThreshold (executeAll cs cb) = failureThreshold cb
       \<and> timeout (executeAll cs cb) = timeout cb
       \<and> resetTimeout (executeAll cs cb) = resetTimeout cb"
  using assms
proof (induction cs arbitrary: cb)
  case Nil
  then show ?case by simp
next
  case (Cons c cs)
  let ?cb = "after (execute (snd c) (fst c) cb)"
  have admitted: "state cb \<noteq> OPEN \<or> resetTimeout cb \<le> fst c - toNumber (lastFailureTime cb)"
    using Cons.prems(1) by simp
  have fails: "\<not> succeedsWithin (timeout cb) (snd c)"
    using Cons.prems(2) by simp
  note step = execute_failure[OF admitted fails]
  have below: "\<not> failureThreshold cb \<le> int (failureCount cb) + 1"
    using Cons.prems(3) by simp
  have st: "state ?cb = CLOSED"
    using step(6) below Cons.prems(1) by simp
  have rest: "\<forall>c \<in> set cs. \<not> succeedsWithin (timeout ?cb) (snd c)"
    using Cons.prems(2) step(4) by simp
  have bound: "int (failureCount ?cb) + int (length cs) < failureThreshold ?cb"
    using Cons.prems(3) step(2) step(3) by simp
  from Cons.IH[OF st rest bound] show ?case
    using step(2,3,4,5,7) below by simp
qed


section \<open>Opening, cooling down and probing\<close>

text \<open>
  C1. Take a new breaker and let \<open>T\<close> be its failure threshold. After \<open>T\<close> consecutive
  calls of \<^verbatim>\<open>execute\<close> that all fail (the operation rejects, or the timer wins), made
  at any times, the breaker is OPEN and \<^verbatim>\<open>stats.circuitOpenCount\<close> is 1. If then at
  least \<^verbatim>\<open>resetTimeout\<close> ms have passed since the last failure, the next call moves the
  breaker to HALF_OPEN and invokes the operation; when that probe succeeds the breaker is
  CLOSED with \<^verbatim>\<open>failureCount\<close> 0, and when it fails the breaker is OPEN again.
\<close>

theorem breaker_opens_then_probes:
  assumes fresh: "cb0 = newCircuitBreaker nm options"
    and len: "int (length cs) = failureThreshold cb0"
    and fails: "\<forall>c \<in> set cs. \<not> succeedsWithin (timeout cb0) (snd c)"
    and cb1: "cb1 = executeAll cs cb0"
  shows "state cb1 = OPEN \<and> circuitOpenCount (stats cb1) = 1
       \<and> (resetTimeout cb1 \<le> now - toNumber (lastFailureTime cb1) \<longrightarrow>
            checkCircuit now (countRequest cb1) = Inr ((countRequest cb1)\<lparr>state := HALF_OPEN\<rparr>)
          \<and> invoked (execute oc now cb1)
          \<and> (succeedsWithin (timeout cb1) oc \<longrightarrow>
                state (after (execute oc now cb1)) = CLOSED
              \<and> failureCount (after (execute oc now cb1)) = 0)
          \<and> (\<not> succeedsWithin (timeout cb1) oc \<longrightarrow>
                state (after (execute oc now cb1)) = OPEN))"
proof -
  have init: "state cb0 = CLOSED" "failureCount cb0 = 0" "circuitOpenCount (stats cb0) = 0"
    using fresh by (simp_all add: newCircuitBreaker_def)
  from len have "cs \<noteq> []"
    using fresh by (auto simp: newCircuitBreaker_def orElse_def split: option.splits if_splits)
  then obtain ds c where cs: "cs = ds @ [c]"
    by (meson rev_exhaust)
  let ?mid = "executeAll ds cb0"
  have mid: "state ?mid = CLOSED \<and> failureCount ?mid = failureCount cb0 + length ds
       \<and> circuitOpenCount (stats ?mid) = circuitOpenCount (stats cb0)
       \<and> failureThreshold ?mid = failureThreshold cb0
       \<and> timeout ?mid = timeout cb0
       \<and> resetTimeout ?mid = resetTimeout cb0"
    using init fails len cs
    by (intro executeAll_failures_below_threshold) auto
  have last_fails: "\<not> succeedsWithin (timeout ?mid) (snd c)"
    using mid fails cs by simp
  have adm: "state ?mid \<noteq> OPEN \<or> resetTimeout ?mid \<le> fst c - toNumber (lastFailureTime ?mid)"
    using mid by simp
  note step = execute_failure[OF adm last_fails]
  have cb1_eq: "cb1 = after (execute (snd c) (fst c) ?mid)"
    using cb1 cs by (simp add: executeAll_append)
  have reach: "failureThreshold ?mid \<le> int (failureCount ?mid) + 1"
    using mid len cs init by simp
  have opened: "state cb1 = OPEN" "circuitOpenCount (stats cb1) = 1"
    using cb1_eq step(6,7) reach mid init by simp_all
  have over: "failureThreshold cb1 \<le> int (failureCount cb1)"
    using cb1_eq step(2,3) reach by simp
  have probe: "checkCircuit now (countRequest cb1) = Inr ((countRequest cb1)\<lparr>state := HALF_OPEN\<rparr>)"
    if "resetTimeout cb1 \<le> now - toNumber (lastFailureTime cb1)"
    using that opened by (simp add: checkCircuit_def)
  have ok: "state (after (execute oc now cb1)) = CLOSED \<and> failureCount (after (execute oc now cb1)) = 0
            \<and> invoked (execute oc now cb1)"
    if "resetTimeout cb1 \<le> now - toNumber (lastFailureTime cb1)" "succeedsWithin (timeout cb1) oc"
    using execute_success[of cb1 now oc] that by simp
  have bad: "state (after (execute oc now cb1)) = OPEN \<and> invoked (execute oc now cb1)"
    if "resetTimeout cb1 \<le> now - toNumber (lastFailureTime cb1)" "\<not> succeedsWithin (timeout cb1) oc"
    using execute_failure(1,6)[of cb1 now oc] that over by simp
  show ?thesis using opened probe ok bad by blast
qed


theorem breaker_opens_then_probes_witness:
  "state (executeAll threeFailures sampleBreaker) = OPEN
   \<and> circuitOpenCount (stats (executeAll threeFailures sampleBreaker)) = 1
   \<and> invoked (execute (Resolves 5 ''ok'') 2211 (executeAll threeFailures sampleBreaker))
   \<and> state (after (execute (Resolves 5 ''ok'') 2211 (executeAll threeFailures sampleBreaker))) = CLOSED
   \<and> failureCount (after (execute (Resolves 5 ''ok'') 2211 (executeAll threeFailures sampleBreaker))) = 0
   \<and> state (after (execute Hangs 2211 (executeAll threeFailures sampleBreaker))) = OPEN"
proof -
  let ?cb1 = "executeAll threeFailures sampleBreaker"
  have len: "int (length threeFailures) = failureThreshold sampleBreaker"
    by (simp add: threeFailures_def sampleBreaker_def newCircuitBreaker_def orElse_def)
  have fails: "\<forall>c \<in> set threeFailures. \<not> succeedsWithin (timeout sampleBreaker) (snd c)"
    by (simp add: threeFailures_def)
  have cooled: "resetTimeout ?cb1 \<le> 2211 - toNumber (lastFailureTime ?cb1)"
    by code_simp
  have fast: "succeedsWithin (timeout ?cb1) (Resolves 5 ''ok'')"
    by code_simp
  have slow: "\<not> succeedsWithin (timeout ?cb1) Hangs"
    by simp
  show ?thesis
    using breaker_opens_then_probes[OF sampleBreaker_def len fails refl, of 2211 "Resolves 5 ''ok''"]
      breaker_opens_then_probes[OF sampleBreaker_def len fails refl, of 2211 Hangs]
      cooled fast slow
    by simp
qed


section \<open>Circuit-open rejections\<close>

text \<open>
  C2. A call of \<^verbatim>\<open>execute\<close> on a breaker that is OPEN, made less than
  \<^verbatim>\<open>resetTimeout\<close> ms after the last failure, throws the circuit-open error at once
  (no time passes), does not invoke the wrapped operation, and still counts in
  \<^verbatim>\<open>stats.totalRequests\<close>; nothing else of the breaker changes.
\<close>

theorem execute_open_rejects:
  assumes "state cb = OPEN"
    and "now - toNumber (lastFailureTime cb) < resetTimeout cb"
  shows "result (execute oc now cb) = Inl (circuitOpenError now cb)
       \<and> code (circuitOpenError now cb) = Some ''CIRCUIT_OPEN''
       \<and> \<not> invoked (execute oc now cb)
       \<and> finishedAt (execute oc now cb) = now
       \<and> totalRequests (stats (after (execute oc now cb))) = totalRequests (stats cb) + 1
       \<and> after (execute oc now cb) = countRequest cb"
  using assms by (simp add: execute_def checkCircuit_def circuitOpenError_def countRequest_def)

text \<open>
  The scenario of the specification: a call made 1999 ms after the third failure is
  rejected and the operation, which would have resolved, is not invoked.
\<close>

theorem execute_open_rejects_witness:
  "result (execute (Resolves 5 ''ok'') 2209 (executeAll threeFailures sampleBreaker))
     = Inl \<lparr> message = ''Circuit breaker OPEN for test-circuit. Next retry in 1s'',
             code = Some ''CIRCUIT_OPEN'' \<rparr>
   \<and> \<not> invoked (execute (Resolves 5 ''ok'') 2209 (executeAll threeFailures sampleBreaker))
   \<and> totalRequests (stats (after (execute (Resolves 5 ''ok'') 2209
        (executeAll threeFailures sampleBreaker)))) = 4"
proof -
  let ?cb1 = "executeAll threeFailures sampleBreaker"
  have opened: "state ?cb1 = OPEN"
    by code_simp
  have cooling: "2209 - toNumber (lastFailureTime ?cb1) < resetTimeout ?cb1"
    by code_simp
  have msg: "circuitOpenError 2209 ?cb1
      = \<lparr> message = ''Circuit breaker OPEN for test-circuit. Next retry in 1s'',
          code = Some ''CIRCUIT_OPEN'' \<rparr>"
    by code_simp
  have total: "totalRequests (stats ?cb1) = 3"
    by code_simp
  show ?thesis
    using execute_open_rejects[OF opened cooling, of "Resolves 5 ''ok''"] msg total
    by (simp add: countRequest_def)
qed


section \<open>Facts about full-protection mode\<close>

declare fullProtectionMode.simps [simp del] handleUpdateError.simps [simp del]

lemma getRetryDelay_bounds: "1000 \<le> getRetryDelay k" "getRetryDelay k \<le> 30000"
proof -
  have "(1::int) \<le> 2 ^ k" by simp
  then show "1000 \<le> getRetryDelay k" by (simp add: getRetryDelay_def)
  show "getRetryDelay k \<le> 30000" by (simp add: getRetryDelay_def)
qed

lemma timerDelay_getRetryDelay [simp]: "timerDelay (getRetryDelay k) = getRetryDelay k"
  using getRetryDelay_bounds[of k] by (simp add: timerDelay_def)

lemma timerDelay_pos: "1 \<le> timerDelay ms"
  by (simp add: timerDelay_def)

lemma handleUpdateError_circuit_open:
  assumes "code err = Some ''CIRCUIT_OPEN''"
  shows "handleUpdateError n err operationId gtfs wd w =
           Some (Inr (Fallback (getGracefulFallback (clock wd)
                   (w\<lparr>consecutiveFailures := consecutiveFailures w + 1\<rparr>))),
                 wd, w\<lparr>consecutiveFailures := consecutiveFailures w + 1\<rparr>)"
  using assms by (simp add: handleUpdateError.simps Let_def)

lemma handleUpdateError_retry:
  assumes "code err \<noteq> Some ''CIRCUIT_OPEN''"
    and "shouldRetry err (classifyError err)"
    and "int (fst (getCurrentRetryCount operationId w)) < retries (config w)"
  shows "handleUpdateError n err operationId gtfs wd w =
           fullProtectionMode n gtfs
             (wd\<lparr>retryLog := retryLog wd @
                    [(operationId, getRetryDelay (fst (getCurrentRetryCount operationId w) + 1),
                      fst (getCurrentRetryCount operationId w) + 1)],
                 clock := clock wd + getRetryDelay (fst (getCurrentRetryCount operationId w) + 1)\<rparr>)
             (tick (clock wd + getRetryDelay (fst (getCurrentRetryCount operationId w) + 1))
                (snd (getCurrentRetryCount operationId w)))"
  using assms
  by (simp add: handleUpdateError.simps Let_def getCurrentRetryCount_def sleep_def split: prod.splits)

lemma handleUpdateError_give_up:
  assumes "code err \<noteq> Some ''CIRCUIT_OPEN''"
    and "\<not> (shouldRetry err (classifyError err)
            \<and> int (fst (getCurrentRetryCount operationId w)) < retries (config w))"
  shows "handleUpdateError n err operationId gtfs wd w =
           Some (Inr (Fallback (getGracefulFallback (clock wd)
                   (w\<lparr>consecutiveFailures := consecutiveFailures w + 1\<rparr>))),
                 wd,
                 w\<lparr>consecutiveFailures := consecutiveFailures w + 1,
                   retryTracker := (retryTracker w)(operationId := None)\<rparr>)"
  using assms
  by (auto simp add: handleUpdateError.simps Let_def getCurrentRetryCount_def getGracefulFallback_def
      split: prod.splits)


lemma tick_fields [simp]:
  "config (tick t w) = config w"
  "lastSuccessfulUpdate (tick t w) = lastSuccessfulUpdate w"
  "consecutiveFailures (tick t w) = consecutiveFailures w"
  "retryTracker (tick t w) = retryTracker w"
  "nativeTimeoutSupported (tick t w) = nativeTimeoutSupported w"
  "wrapperEnabled (tick t w) = wrapperEnabled w"
  by (simp_all add: tick_def)

lemma putBreaker_fields [simp]:
  "config (putBreaker b cb w) = config w"
  "lastSuccessfulUpdate (putBreaker b cb w) = lastSuccessfulUpdate w"
  "consecutiveFailures (putBreaker b cb w) = consecutiveFailures w"
  "retryTracker (putBreaker b cb w) = retryTracker w"
  "nativeTimeoutSupported (putBreaker b cb w) = nativeTimeoutSupported w"
  "wrapperEnabled (putBreaker b cb w) = wrapperEnabled w"
  by (cases b; simp)+

lemma getCurrentRetryCount_fields [simp]:
  "config (snd (getCurrentRetryCount i w)) = config w"
  "lastSuccessfulUpdate (snd (getCurrentRetryCount i w)) = lastSuccessfulUpdate w"
  "consecutiveFailures (snd (getCurrentRetryCount i w)) = consecutiveFailures w"
  "retryTracker (snd (getCurrentRetryCount i w)) i = Some (fst (getCurrentRetryCount i w) + 1)"
  by (simp_all add: getCurrentRetryCount_def Let_def)

lemma getGracefulFallback_cong:
  "lastSuccessfulUpdate w1 = lastSuccessfulUpdate w2 \<Longrightarrow>
     getGracefulFallback t w1 = getGracefulFallback t w2"
  by (simp add: getGracefulFallback_def)

lemma handleUpdateError_shape:
  assumes full: "\<And>gtfs wd w r wd' w'. fullProtectionMode n gtfs wd w = Some (r, wd', w') \<Longrightarrow>
            (\<exists>v. r = Inr (Updated v)) \<or> r = Inr (Fallback (getGracefulFallback (clock wd') w))"
    and run: "handleUpdateError n err operationId gtfs wd w = Some (r, wd', w')"
  shows "(\<exists>v. r = Inr (Updated v)) \<or> r = Inr (Fallback (getGracefulFallback (clock wd') w))"
proof (cases "code err = Some ''CIRCUIT_OPEN''")
  case True
  from run show ?thesis
    unfolding handleUpdateError_circuit_open[OF True]
    by (auto intro: getGracefulFallback_cong)
next
  case False
  show ?thesis
  proof (cases "shouldRetry err (classifyError err)
            \<and> int (fst (getCurrentRetryCount operationId w)) < retries (config w)")
    case True
    then have again: "handleUpdateError n err operationId gtfs wd w =
           fullProtectionMode n gtfs
             (wd\<lparr>retryLog := retryLog wd @
                    [(operationId, getRetryDelay (fst (getCurrentRetryCount operationId w) + 1),
                      fst (getCurrentRetryCount operationId w) + 1)],
                 clock := clock wd + getRetryDelay (fst (getCurrentRetryCount operationId w) + 1)\<rparr>)
             (tick (clock wd + getRetryDelay (fst (getCurrentRetryCount operationId w) + 1))
                (snd (getCurrentRetryCount operationId w)))"
      using handleUpdateError_retry[OF False] by blast
    from full[OF run[unfolded again]] show ?thesis
      by (auto simp: getGracefulFallback_cong[of "tick _ (snd (getCurrentRetryCount operationId w))" w])
  next
    case stop: False
    from run show ?thesis
      unfolding handleUpdateError_give_up[OF False stop]
      by (auto intro: getGracefulFallback_cong)
  qed
qed

lemma fullProtectionMode_shape_step:
  assumes handle: "\<And>err operationId gtfs wd w r wd' w'.
            handleUpdateError n err operationId gtfs wd w = Some (r, wd', w') \<Longrightarrow>
            (\<exists>v. r = Inr (Updated v)) \<or> r = Inr (Fallback (getGracefulFallback (clock wd') w))"
    and run: "fullProtectionMode (Suc n) gtfs wd w = Some (r, wd', w')"
  shows "(\<exists>v. r = Inr (Updated v)) \<or> r = Inr (Fallback (getGracefulFallback (clock wd') w))"
proof -
  define ex where "ex = execute (gtfs (calls wd)) (clock wd) (getBreaker (selectCircuitBreaker w) w)"
  define wd1 where "wd1 = wd\<lparr>clock := finishedAt ex,
                   calls := (if invoked ex then calls wd + 1 else calls wd)\<rparr>"
  define w1 where "w1 = tick (finishedAt ex) (putBreaker (selectCircuitBreaker w) (after ex) w)"
  show ?thesis
  proof (cases "result ex")
    case (Inr v)
    with run show ?thesis
      by (auto simp add: fullProtectionMode.simps Let_def ex_def)
  next
    case (Inl err)
    with run have "handleUpdateError n err (GtfsRt (clock wd)) gtfs wd1 w1 = Some (r, wd', w')"
      by (simp add: fullProtectionMode.simps Let_def ex_def wd1_def w1_def)
    from handle[OF this] show ?thesis
      by (auto simp: w1_def getGracefulFallback_cong[of "tick _ (putBreaker _ _ w)" w])
  qed
qed

lemma run_shape:
  "(\<forall>gtfs wd w r wd' w'. fullProtectionMode n gtfs wd w = Some (r, wd', w') \<longrightarrow>
      (\<exists>v. r = Inr (Updated v)) \<or> r = Inr (Fallback (getGracefulFallback (clock wd') w)))
 \<and> (\<forall>err operationId gtfs wd w r wd' w'.
      handleUpdateError n err operationId gtfs wd w = Some (r, wd', w') \<longrightarrow>
      (\<exists>v. r = Inr (Updated v)) \<or> r = Inr (Fallback (getGracefulFallback (clock wd') w)))"
proof (induction n)
  case 0
  have full0: "\<And>gtfs wd w r wd' w'. fullProtectionMode 0 gtfs wd w = Some (r, wd', w') \<Longrightarrow>
      (\<exists>v. r = Inr (Updated v)) \<or> r = Inr (Fallback (getGracefulFallback (clock wd') w))"
    by (simp add: fullProtectionMode.simps)
  show ?case
    using full0 handleUpdateError_shape[of 0] by blast
next
  case (Suc n)
  then have handle: "\<And>err operationId gtfs wd w r wd' w'.
            handleUpdateError n err operationId gtfs wd w = Some (r, wd', w') \<Longrightarrow>
            (\<exists>v. r = Inr (Updated v)) \<or> r = Inr (Fallback (getGracefulFallback (clock wd') w))"
    by blast
  have full: "(\<exists>v. r = Inr (Updated v)) \<or> r = Inr (Fallback (getGracefulFallback (clock wd') w))"
    if "fullProtectionMode (Suc n) gtfs wd w = Some (r, wd', w')" for gtfs wd w r wd' w'
    by (rule fullProtectionMode_shape_step[OF _ that]) (rule handle)
  show ?case
    using full handleUpdateError_shape[of "Suc n"] by blast
qed


lemma raceWinner_elapsed: "0 \<le> snd (raceWinner ms oc)"
  using timerDelay_pos[of ms] by (cases oc) auto

lemma execute_finishedAt: "now \<le> finishedAt (execute oc now cb)"
  using raceWinner_elapsed[of "timeout cb" oc]
  by (auto simp: execute_def Let_def checkCircuit_def split: sum.splits prod.splits settled.splits)

lemma retriesAsAnnounced_refl: "retriesAsAnnounced m k wd wd"
  by (simp add: retriesAsAnnounced_def)

lemma handleUpdateError_trace:
  assumes full: "\<And>gtfs wd w r wd' w'. fullProtectionMode n gtfs wd w = Some (r, wd', w') \<Longrightarrow>
            retriesAsAnnounced (retries (config w)) 1 wd wd'"
    and run: "handleUpdateError n err operationId gtfs wd w = Some (r, wd', w')"
  shows "retriesAsAnnounced (retries (config w)) 0 wd wd'"
proof (cases "code err = Some ''CIRCUIT_OPEN''")
  case True
  from run show ?thesis
    unfolding handleUpdateError_circuit_open[OF True]
    by (auto simp: retriesAsAnnounced_refl)
next
  case False
  show ?thesis
  proof (cases "shouldRetry err (classifyError err)
            \<and> int (fst (getCurrentRetryCount operationId w)) < retries (config w)")
    case True
    define a where "a = fst (getCurrentRetryCount operationId w)"
    define wd2 where "wd2 = wd\<lparr>retryLog := retryLog wd @ [(operationId, getRetryDelay (a + 1), a + 1)],
                 clock := clock wd + getRetryDelay (a + 1)\<rparr>"
    define w2 where "w2 = tick (clock wd + getRetryDelay (a + 1)) (snd (getCurrentRetryCount operationId w))"
    have again: "handleUpdateError n err operationId gtfs wd w = fullProtectionMode n gtfs wd2 w2"
      using handleUpdateError_retry[OF False] True by (simp add: a_def wd2_def w2_def)
    from full[OF run[unfolded again]]
    obtain evs where evs: "retryLog wd' = retryLog wd2 @ evs"
        "list_all (wellAnnounced (retries (config w2))) evs"
        "calls wd' \<le> calls wd2 + length evs + 1"
        "clock wd2 + sum_list (map (fst \<circ> snd) evs) \<le> clock wd'"
      unfolding retriesAsAnnounced_def by blast
    have cfg: "config w2 = config w" by (simp add: w2_def)
    have first: "wellAnnounced (retries (config w)) (operationId, getRetryDelay (a + 1), a + 1)"
      using True by (simp add: a_def getRetryDelay_def)
    let ?evs = "(operationId, getRetryDelay (a + 1), a + 1) # evs"
    have "retryLog wd' = retryLog wd @ ?evs"
      using evs(1) by (simp add: wd2_def)
    moreover have "list_all (wellAnnounced (retries (config w))) ?evs"
      using evs(2) first cfg by simp
    moreover have "calls wd' \<le> calls wd + length ?evs + 0"
      using evs(3) by (simp add: wd2_def)
    moreover have "clock wd + sum_list (map (fst \<circ> snd) ?evs) \<le> clock wd'"
      using evs(4) by (simp add: wd2_def)
    ultimately show ?thesis
      unfolding retriesAsAnnounced_def by blast
  next
    case stop: False
    from run show ?thesis
      unfolding handleUpdateError_give_up[OF False stop]
      by (auto simp: retriesAsAnnounced_refl)
  qed
qed

lemma fullProtectionMode_trace_step:
  assumes handle: "\<And>err operationId gtfs wd w r wd' w'.
            handleUpdateError n err operationId gtfs wd w = Some (r, wd', w') \<Longrightarrow>
            retriesAsAnnounced (retries (config w)) 0 wd wd'"
    and run: "fullProtectionMode (Suc n) gtfs wd w = Some (r, wd', w')"
  shows "retriesAsAnnounced (retries (config w)) 1 wd wd'"
proof -
  define ex where "ex = execute (gtfs (calls wd)) (clock wd) (getBreaker (selectCircuitBreaker w) w)"
  define wd1 where "wd1 = wd\<lparr>clock := finishedAt ex,
                   calls := (if invoked ex then calls wd + 1 else calls wd)\<rparr>"
  define w1 where "w1 = tick (finishedAt ex) (putBreaker (selectCircuitBreaker w) (after ex) w)"
  have later: "clock wd \<le> clock wd1"
    using execute_finishedAt by (simp add: wd1_def ex_def)
  have once: "calls wd1 \<le> calls wd + 1" "retryLog wd1 = retryLog wd"
    by (simp_all add: wd1_def)
  show ?thesis
  proof (cases "result ex")
    case (Inr v)
    with run have "wd' = wd1"
      by (auto simp add: fullProtectionMode.simps Let_def ex_def wd1_def)
    then show ?thesis
      using later once by (simp add: retriesAsAnnounced_def)
  next
    case (Inl err)
    with run have "handleUpdateError n err (GtfsRt (clock wd)) gtfs wd1 w1 = Some (r, wd', w')"
      by (simp add: fullProtectionMode.simps Let_def ex_def wd1_def w1_def)
    from handle[OF this] obtain evs where evs: "retryLog wd' = retryLog wd1 @ evs"
        "list_all (wellAnnounced (retries (config w1))) evs"
        "calls wd' \<le> calls wd1 + length evs + 0"
        "clock wd1 + sum_list (map (fst \<circ> snd) evs) \<le> clock wd'"
      unfolding retriesAsAnnounced_def by blast
    have cfg: "config w1 = config w" by (simp add: w1_def)
    have "retryLog wd' = retryLog wd @ evs"
      using evs(1) once by simp
    moreover have "list_all (wellAnnounced (retries (config w))) evs"
      using evs(2) cfg by simp
    moreover have "calls wd' \<le> calls wd + length evs + 1"
      using evs(3) once by simp
    moreover have "clock wd + sum_list (map (fst \<circ> snd) evs) \<le> clock wd'"
      using evs(4) later by simp
    ultimately show ?thesis
      unfolding retriesAsAnnounced_def by blast
  qed
qed

lemma run_trace:
  "(\<forall>gtfs wd w r wd' w'. fullProtectionMode n gtfs wd w = Some (r, wd', w') \<longrightarrow>
      retriesAsAnnounced (retries (config w)) 1 wd wd')
 \<and> (\<forall>err operationId gtfs wd w r wd' w'.
      handleUpdateError n err operationId gtfs wd w = Some (r, wd', w') \<longrightarrow>
      retriesAsAnnounced (retries (config w)) 0 wd wd')"
proof (induction n)
  case 0
  have full0: "\<And>gtfs wd w r wd' w'. fullProtectionMode 0 gtfs wd w = Some (r, wd', w') \<Longrightarrow>
      retriesAsAnnounced (retries (config w)) 1 wd wd'"
    by (simp add: fullProtectionMode.simps)
  show ?case
    using full0 handleUpdateError_trace[of 0] by blast
next
  case (Suc n)
  then have handle: "\<And>err operationId gtfs wd w r wd' w'.
            handleUpdateError n err operationId gtfs wd w = Some (r, wd', w') \<Longrightarrow>
            retriesAsAnnounced (retries (config w)) 0 wd wd'"
    by blast
  have full: "retriesAsAnnounced (retries (config w)) 1 wd wd'"
    if "fullProtectionMode (Suc n) gtfs wd w = Some (r, wd', w')" for gtfs wd w r wd' w'
    by (rule fullProtectionMode_trace_step[OF _ that]) (rule handle)
  show ?case
    using full handleUpdateError_trace[of "Suc n"] by blast
qed


text \<open>
  One entry into full-protection mode either completes the call or fails and enters again
  after a wait of at most 30 s, with one more failure counted by the same breaker.
\<close>

lemma getBreaker_tick_putBreaker [simp]:
  "getBreaker b (tick t (putBreaker b cb w)) = runTimers t cb"
  by (cases b) (simp_all add: tick_def)

lemma getBreaker_putBreaker [simp]:
  "getBreaker b (putBreaker b cb w) = cb"
  by (cases b) simp_all

lemma getBreaker_tick [simp]:
  "getBreaker b (tick t w) = runTimers t (getBreaker b w)"
  by (cases b) (simp_all add: tick_def)

lemma getBreaker_getCurrentRetryCount [simp]:
  "getBreaker b (snd (getCurrentRetryCount i w)) = getBreaker b w"
  by (cases b) (simp_all add: getCurrentRetryCount_def Let_def)

lemma selectCircuitBreaker_cong:
  "consecutiveFailures w2 = consecutiveFailures w \<Longrightarrow> selectCircuitBreaker w2 = selectCircuitBreaker w"
  by (simp add: selectCircuitBreaker_def)

lemma execute_cases:
  "(\<not> invoked (execute oc now cb) \<and> (\<exists>e. result (execute oc now cb) = Inl e \<and> code e = Some ''CIRCUIT_OPEN''))
   \<or> (\<exists>v. result (execute oc now cb) = Inr v)
   \<or> ((\<exists>e. result (execute oc now cb) = Inl e)
      \<and> failureCount (after (execute oc now cb)) = failureCount cb + 1
      \<and> failureThreshold (after (execute oc now cb)) = failureThreshold cb
      \<and> resetTimeout (after (execute oc now cb)) = resetTimeout cb
      \<and> lastFailureTime (after (execute oc now cb)) = Some (finishedAt (execute oc now cb))
      \<and> (failureThreshold cb \<le> int (failureCount cb) + 1 \<longrightarrow> state (after (execute oc now cb)) = OPEN))"
  by (auto simp: execute_def checkCircuit_def circuitOpenError_def Let_def
      split: prod.splits settled.splits)

lemma fullProtectionMode_rejected:
  assumes "state (getBreaker (selectCircuitBreaker w) w) = OPEN"
    and "clock wd - toNumber (lastFailureTime (getBreaker (selectCircuitBreaker w) w))
           < resetTimeout (getBreaker (selectCircuitBreaker w) w)"
  shows "\<exists>x. fullProtectionMode (Suc n) gtfs wd w = Some x"
proof -
  let ?cb = "getBreaker (selectCircuitBreaker w) w"
  have "result (execute (gtfs (calls wd)) (clock wd) ?cb) = Inl (circuitOpenError (clock wd) ?cb)"
    "code (circuitOpenError (clock wd) ?cb) = Some ''CIRCUIT_OPEN''"
    using assms by (simp_all add: execute_def checkCircuit_def circuitOpenError_def countRequest_def)
  then show ?thesis
    by (simp add: fullProtectionMode.simps Let_def handleUpdateError_circuit_open)
qed


lemma fullProtectionMode_attempt:
  fixes w :: wrapper and wd :: world
  defines "cb \<equiv> getBreaker (selectCircuitBreaker w) w"
  shows "(\<exists>x. fullProtectionMode (Suc n) gtfs wd w = Some x)
       \<or> (\<exists>wd2 w2 t. fullProtectionMode (Suc n) gtfs wd w = fullProtectionMode n gtfs wd2 w2
             \<and> selectCircuitBreaker w2 = selectCircuitBreaker w
             \<and> failureCount (getBreaker (selectCircuitBreaker w) w2) = failureCount cb + 1
             \<and> failureThreshold (getBreaker (selectCircuitBreaker w) w2) = failureThreshold cb
             \<and> resetTimeout (getBreaker (selectCircuitBreaker w) w2) = resetTimeout cb
             \<and> lastFailureTime (getBreaker (selectCircuitBreaker w) w2) = Some t
             \<and> clock wd2 - t \<le> 30000
             \<and> (failureThreshold cb \<le> int (failureCount cb) + 1 \<longrightarrow>
                  state (getBreaker (selectCircuitBreaker w) w2) = OPEN))"
proof -
  define ex where "ex = execute (gtfs (calls wd)) (clock wd) cb"
  define wd1 where "wd1 = wd\<lparr>clock := finishedAt ex,
                   calls := (if invoked ex then calls wd + 1 else calls wd)\<rparr>"
  define w1 where "w1 = tick (finishedAt ex) (putBreaker (selectCircuitBreaker w) (after ex) w)"
  define operationId where "operationId = GtfsRt (clock wd)"
  have unfold: "fullProtectionMode (Suc n) gtfs wd w =
      (case result ex of
         Inr v \<Rightarrow> Some (Inr (Updated v), wd1, onUpdateSuccess (clock wd1) operationId w1)
       | Inl err \<Rightarrow> handleUpdateError n err operationId gtfs wd1 w1)"
    by (simp only: fullProtectionMode.simps Let_def ex_def wd1_def w1_def operationId_def cb_def)
  consider (rejected) e where "result ex = Inl e" "code e = Some ''CIRCUIT_OPEN''"
    | (resolved) v where "result ex = Inr v"
    | (failed) e where "result ex = Inl e" "code e \<noteq> Some ''CIRCUIT_OPEN''"
        "failureCount (after ex) = failureCount cb + 1"
        "failureThreshold (after ex) = failureThreshold cb"
        "resetTimeout (after ex) = resetTimeout cb"
        "lastFailureTime (after ex) = Some (finishedAt ex)"
        "failureThreshold cb \<le> int (failureCount cb) + 1 \<longrightarrow> state (after ex) = OPEN"
    using execute_cases[of "gtfs (calls wd)" "clock wd" cb] unfolding ex_def by blast
  then show ?thesis
  proof cases
    case rejected
    then show ?thesis
      unfolding unfold by (simp add: handleUpdateError_circuit_open)
  next
    case resolved
    then show ?thesis
      unfolding unfold by simp
  next
    case failed
    show ?thesis
    proof (cases "shouldRetry e (classifyError e)
            \<and> int (fst (getCurrentRetryCount operationId w1)) < retries (config w1)")
      case False
      then show ?thesis
        unfolding unfold using failed(1) handleUpdateError_give_up[OF failed(2) False]
        by simp
    next
      case True
      define delay where "delay = getRetryDelay (fst (getCurrentRetryCount operationId w1) + 1)"
      define wd2 where "wd2 = wd1\<lparr>retryLog := retryLog wd1 @
                    [(operationId, delay, fst (getCurrentRetryCount operationId w1) + 1)],
                 clock := clock wd1 + delay\<rparr>"
      define w2 where "w2 = tick (clock wd1 + delay) (snd (getCurrentRetryCount operationId w1))"
      have again: "fullProtectionMode (Suc n) gtfs wd w = fullProtectionMode n gtfs wd2 w2"
        unfolding unfold using failed(1) handleUpdateError_retry[OF failed(2), of operationId w1 n gtfs wd1] True
        by (simp add: wd2_def w2_def delay_def)
      have same: "selectCircuitBreaker w2 = selectCircuitBreaker w"
        by (rule selectCircuitBreaker_cong) (simp add: w2_def w1_def)
      have cb2: "getBreaker (selectCircuitBreaker w) w2
          = runTimers (clock wd1 + delay) (runTimers (finishedAt ex) (after ex))"
        by (simp add: w2_def w1_def)
      have wait: "clock wd2 - finishedAt ex \<le> 30000"
        using getRetryDelay_bounds(2) by (simp add: wd2_def wd1_def delay_def)
      show ?thesis
        using again same wait failed(3-7)
        by (intro disjI2 exI[of _ wd2] exI[of _ w2] exI[of _ "finishedAt ex"]) (simp add: cb2)
    qed
  qed
qed

lemma fullProtectionMode_completes:
  assumes "30000 < resetTimeout (getBreaker (selectCircuitBreaker w) w)"
    and "failureThreshold (getBreaker (selectCircuitBreaker w) w)
           - int (failureCount (getBreaker (selectCircuitBreaker w) w)) \<le> int m"
    and "m + 2 \<le> n"
  shows "\<exists>x. fullProtectionMode n gtfs wd w = Some x"
  using assms
proof (induction m arbitrary: n wd w)
  case 0
  then obtain n' where n: "n = Suc (Suc n')"
    by (metis add_0 le_Suc_ex numeral_2_eq_2 plus_nat.simps(2) add_Suc)
  let ?cb = "getBreaker (selectCircuitBreaker w) w"
  from fullProtectionMode_attempt[of "Suc n'" gtfs wd w]
  show ?case
  proof (elim disjE exE conjE)
    fix x assume "fullProtectionMode (Suc (Suc n')) gtfs wd w = Some x"
    then show ?thesis using n by blast
  next
    fix wd2 w2 t
    assume step: "fullProtectionMode (Suc (Suc n')) gtfs wd w = fullProtectionMode (Suc n') gtfs wd2 w2"
      "selectCircuitBreaker w2 = selectCircuitBreaker w"
      "resetTimeout (getBreaker (selectCircuitBreaker w) w2) = resetTimeout ?cb"
      "lastFailureTime (getBreaker (selectCircuitBreaker w) w2) = Some t"
      "clock wd2 - t \<le> 30000"
      "failureThreshold ?cb \<le> int (failureCount ?cb) + 1 \<longrightarrow>
         state (getBreaker (selectCircuitBreaker w) w2) = OPEN"
    have opened: "state (getBreaker (selectCircuitBreaker w2) w2) = OPEN"
      using step(2,6) "0.prems"(2) by simp
    have cooling: "clock wd2 - toNumber (lastFailureTime (getBreaker (selectCircuitBreaker w2) w2))
           < resetTimeout (getBreaker (selectCircuitBreaker w2) w2)"
      using step(2,3,4,5) "0.prems"(1) by (simp add: toNumber_def)
    from fullProtectionMode_rejected[OF opened cooling, of n' gtfs]
    show ?thesis using step(1) n by auto
  qed
next
  case (Suc m)
  then obtain n' where n: "n = Suc n'" "m + 2 \<le> n'"
    by (metis Suc_le_D add_Suc Suc_le_mono)
  let ?cb = "getBreaker (selectCircuitBreaker w) w"
  from fullProtectionMode_attempt[of n' gtfs wd w]
  show ?case
  proof (elim disjE exE conjE)
    fix x assume "fullProtectionMode (Suc n') gtfs wd w = Some x"
    then show ?thesis using n by blast
  next
    fix wd2 w2 t
    assume step: "fullProtectionMode (Suc n') gtfs wd w = fullProtectionMode n' gtfs wd2 w2"
      "selectCircuitBreaker w2 = selectCircuitBreaker w"
      "failureCount (getBreaker (selectCircuitBreaker w) w2) = failureCount ?cb + 1"
      "failureThreshold (getBreaker (selectCircuitBreaker w) w2) = failureThreshold ?cb"
      "resetTimeout (getBreaker (selectCircuitBreaker w) w2) = resetTimeout ?cb"
    have r: "30000 < resetTimeout (getBreaker (selectCircuitBreaker w2) w2)"
      using step(2,5) Suc.prems(1) by simp
    have d: "failureThreshold (getBreaker (selectCircuitBreaker w2) w2)
           - int (failureCount (getBreaker (selectCircuitBreaker w2) w2)) \<le> int m"
      using step(2,3,4) Suc.prems(2) by simp
    from Suc.IH[OF r d n(2), of wd2]
    show ?thesis using step(1) n by auto
  qed
qed


section \<open>Lightweight mode and the request counter\<close>

lemma jsDivide_zero: "\<not> isFinite (jsDivide x 0)"
  by (cases x) auto

lemma updateAverageResponseTime_fields [simp]:
  "totalRequests (stats (updateAverageResponseTime t cb)) = totalRequests (stats cb)"
  "successfulRequests (stats (updateAverageResponseTime t cb)) = successfulRequests (stats cb)"
  "failedRequests (stats (updateAverageResponseTime t cb)) = failedRequests (stats cb)"
  by (simp_all add: updateAverageResponseTime_def Let_def)

lemma updateAverageResponseTime_zero_requests:
  "totalRequests (stats cb) = 0 \<Longrightarrow>
     \<not> isFinite (averageResponseTime (stats (updateAverageResponseTime t cb)))"
  by (simp add: updateAverageResponseTime_def Let_def jsDivide_zero)

lemma onSuccess_stats:
  "totalRequests (stats (onSuccess now t cb)) = totalRequests (stats cb)"
  "successfulRequests (stats (onSuccess now t cb)) = successfulRequests (stats cb) + 1"
  "failedRequests (stats (onSuccess now t cb)) = failedRequests (stats cb)"
  "totalRequests (stats cb) = 0 \<Longrightarrow> \<not> isFinite (averageResponseTime (stats (onSuccess now t cb)))"
  by (simp_all add: onSuccess_def Let_def updateAverageResponseTime_zero_requests)

lemma onFailure_stats:
  "totalRequests (stats (onFailure now e t cb)) = totalRequests (stats cb)"
  "successfulRequests (stats (onFailure now e t cb)) = successfulRequests (stats cb)"
  "failedRequests (stats (onFailure now e t cb)) = failedRequests (stats cb) + 1"
  "totalRequests (stats cb) = 0 \<Longrightarrow> \<not> isFinite (averageResponseTime (stats (onFailure now e t cb)))"
  by (simp_all add: onFailure_def Let_def updateAverageResponseTime_def jsDivide_zero)

lemma tick_main_stats:
  "totalRequests (stats (mainBreaker (tick t w))) = totalRequests (stats (mainBreaker w))"
  "successfulRequests (stats (mainBreaker (tick t w))) = successfulRequests (stats (mainBreaker w))"
  "failedRequests (stats (mainBreaker (tick t w))) = failedRequests (stats (mainBreaker w))"
  "averageResponseTime (stats (mainBreaker (tick t w))) = averageResponseTime (stats (mainBreaker w))"
  by (simp_all add: tick_def runTimers_def)

lemma tick_main_breaker:
  "mainBreaker (tick t w) = runTimers t (mainBreaker w)"
  by (simp add: tick_def)

lemma runTimers_stats:
  "totalRequests (stats (runTimers t cb)) = totalRequests (stats cb)"
  "successfulRequests (stats (runTimers t cb)) = successfulRequests (stats cb)"
  "failedRequests (stats (runTimers t cb)) = failedRequests (stats cb)"
  by (simp_all add: runTimers_def)

lemma lightweightMode_resolves:
  assumes "gtfs (calls wd) = Resolves d v"
  shows "\<exists>w'. lightweightMode gtfs wd w =
             Some (Inr (Updated v), wd\<lparr>clock := clock wd + int d, calls := calls wd + 1\<rparr>, w')
       \<and> mainBreaker w'
           = onSuccess (clock wd + int d) (int d) (runTimers (clock wd + int d) (mainBreaker w))"
  using assms
  by (simp add: lightweightMode_def Let_def onUpdateSuccess_def tick_main_breaker)

lemma lightweightMode_rejects:
  assumes "gtfs (calls wd) = Rejects d err"
  shows "\<exists>w'. lightweightMode gtfs wd w =
             Some (Inl err, wd\<lparr>clock := clock wd + int d, calls := calls wd + 1\<rparr>, w')
       \<and> mainBreaker w'
           = onFailure (clock wd + int d) err (int d) (runTimers (clock wd + int d) (mainBreaker w))"
  using assms
  by (simp add: lightweightMode_def Let_def onUpdateFailure_def tick_main_breaker)

lemma lightweightMode_step:
  assumes "gtfs (calls wd) \<noteq> Hangs"
    and "totalRequests (stats (mainBreaker w)) = 0"
  shows "\<exists>r wd' w'. lightweightMode gtfs wd w = Some (r, wd', w')
       \<and> awaited (gtfs (calls wd)) = Some r
       \<and> calls wd' = calls wd + 1
       \<and> totalRequests (stats (mainBreaker w')) = 0
       \<and> successfulRequests (stats (mainBreaker w'))
           = successfulRequests (stats (mainBreaker w)) + (if resolves (gtfs (calls wd)) then 1 else 0)
       \<and> failedRequests (stats (mainBreaker w'))
           = failedRequests (stats (mainBreaker w)) + (if rejects (gtfs (calls wd)) then 1 else 0)
       \<and> \<not> isFinite (averageResponseTime (stats (mainBreaker w')))"
proof (cases "gtfs (calls wd)")
  case (Resolves d v)
  from lightweightMode_resolves[of gtfs wd d v w] show ?thesis
    using Resolves assms(2) by (auto simp: onSuccess_stats runTimers_stats)
next
  case (Rejects d err)
  from lightweightMode_rejects[of gtfs wd d err w] show ?thesis
    using Rejects assms(2) by (auto simp: onFailure_stats runTimers_stats)
next
  case Hangs
  with assms(1) show ?thesis by simp
qed

lemma upt_first: "[i..<i + Suc n] = i # [i + 1..<i + 1 + n]"
  by (simp add: upt_rec)

lemma lightweightCalls_stats:
  assumes "\<forall>k. gtfs k \<noteq> Hangs"
    and "totalRequests (stats (mainBreaker w)) = 0"
  shows "\<exists>rs wd' w'. lightweightCalls gaps gtfs wd w = Some (rs, wd', w')
       \<and> map Some rs = map (awaited \<circ> gtfs) [calls wd..<calls wd + length gaps]
       \<and> calls wd' = calls wd + length gaps
       \<and> totalRequests (stats (mainBreaker w')) = 0
       \<and> successfulRequests (stats (mainBreaker w'))
           = successfulRequests (stats (mainBreaker w))
             + length (filter (resolves \<circ> gtfs) [calls wd..<calls wd + length gaps])
       \<and> failedRequests (stats (mainBreaker w'))
           = failedRequests (stats (mainBreaker w))
             + length (filter (rejects \<circ> gtfs) [calls wd..<calls wd + length gaps])
       \<and> (gaps \<noteq> [] \<longrightarrow> \<not> isFinite (averageResponseTime (stats (mainBreaker w'))))"
  using assms(2)
proof (induction gaps arbitrary: wd w)
  case Nil
  then show ?case by simp
next
  case (Cons gap gaps)
  let ?wd0 = "wd\<lparr>clock := clock wd + int gap\<rparr>"
  let ?w0 = "tick (clock wd + int gap) w"
  let ?oc = "gtfs (calls wd)"
  have live: "gtfs (calls ?wd0) \<noteq> Hangs"
    using assms(1) by simp
  have none: "totalRequests (stats (mainBreaker ?w0)) = 0"
    using Cons.prems by (simp add: tick_main_stats)
  from lightweightMode_step[of gtfs ?wd0 ?w0, OF live none]
  obtain r wd1 w1 where first: "lightweightMode gtfs ?wd0 ?w0 = Some (r, wd1, w1)"
      "awaited ?oc = Some r"
      "calls wd1 = calls wd + 1"
      "totalRequests (stats (mainBreaker w1)) = 0"
      "successfulRequests (stats (mainBreaker w1))
         = successfulRequests (stats (mainBreaker w)) + (if resolves ?oc then 1 else 0)"
      "failedRequests (stats (mainBreaker w1))
         = failedRequests (stats (mainBreaker w)) + (if rejects ?oc then 1 else 0)"
      "\<not> isFinite (averageResponseTime (stats (mainBreaker w1)))"
    by (auto simp: tick_main_stats)
  from Cons.IH[OF first(4), of wd1]
  obtain rs wd' w' where rest: "lightweightCalls gaps gtfs wd1 w1 = Some (rs, wd', w')"
      "map Some rs = map (awaited \<circ> gtfs) [calls wd1..<calls wd1 + length gaps]"
      "calls wd' = calls wd1 + length gaps"
      "totalRequests (stats (mainBreaker w')) = 0"
      "successfulRequests (stats (mainBreaker w'))
         = successfulRequests (stats (mainBreaker w1))
           + length (filter (resolves \<circ> gtfs) [calls wd1..<calls wd1 + length gaps])"
      "failedRequests (stats (mainBreaker w'))
         = failedRequests (stats (mainBreaker w1))
           + length (filter (rejects \<circ> gtfs) [calls wd1..<calls wd1 + length gaps])"
      "gaps \<noteq> [] \<longrightarrow> \<not> isFinite (averageResponseTime (stats (mainBreaker w')))"
    by blast
  have range: "[calls wd..<calls wd + length (gap # gaps)]
      = calls wd # [calls wd1..<calls wd1 + length gaps]"
    using upt_first[of "calls wd" "length gaps"] first(3) by simp
  have whole: "lightweightCalls (gap # gaps) gtfs wd w = Some (r # rs, wd', w')"
    using first(1) rest(1) by simp
  have nonfinite: "\<not> isFinite (averageResponseTime (stats (mainBreaker w')))"
  proof (cases gaps)
    case Nil
    with rest(1) first(7) show ?thesis by simp
  next
    case (Cons g gs)
    with rest(7) show ?thesis by simp
  qed
  have results: "map Some (r # rs) = map (awaited \<circ> gtfs) [calls wd..<calls wd + length (gap # gaps)]"
    unfolding range using rest(2) first(2) by simp
  have invoked: "calls wd' = calls wd + length (gap # gaps)"
    using rest(3) first(3) by simp
  have good: "successfulRequests (stats (mainBreaker w'))
           = successfulRequests (stats (mainBreaker w))
             + length (filter (resolves \<circ> gtfs) [calls wd..<calls wd + length (gap # gaps)])"
    unfolding range using rest(5) first(5) by simp
  have bad: "failedRequests (stats (mainBreaker w'))
           = failedRequests (stats (mainBreaker w))
             + length (filter (rejects \<circ> gtfs) [calls wd..<calls wd + length (gap # gaps)])"
    unfolding range using rest(6) first(6) by simp
  show ?case
    using whole results invoked rest(4) good bad nonfinite by blast
qed

lemma resolves_or_rejects:
  assumes "\<forall>k. gtfs k \<noteq> Hangs"
  shows "length (filter (resolves \<circ> gtfs) ks) + length (filter (rejects \<circ> gtfs) ks) = length ks"
proof (induction ks)
  case Nil
  then show ?case by simp
next
  case (Cons k ks)
  have "resolves (gtfs k) \<noteq> rejects (gtfs k)"
    using assms by (cases "gtfs k") auto
  with Cons show ?case by auto
qed

text \<open>
  C10. \<^verbatim>\<open>lightweightMode\<close> records each outcome with \<^verbatim>\<open>onSuccess\<close> or
  \<^verbatim>\<open>onFailure\<close> of the main breaker and never goes through \<^verbatim>\<open>execute\<close>: a call
  whose operation resolves returns its value and leaves the main breaker as
  \<^verbatim>\<open>onSuccess\<close> makes it, a call whose operation rejects throws the same error and
  leaves the main breaker as \<^verbatim>\<open>onFailure\<close> makes it. On a wrapper whose main breaker
  has counted no request, \<open>N\<close> calls in lightweight mode (none of which hangs) all
  complete and invoke the operation \<open>N\<close> times; each returns or throws what its
  invocation gave; \<^verbatim>\<open>successfulRequests\<close> is the number of invocations that resolved
  and \<^verbatim>\<open>failedRequests\<close> the number that rejected, so their sum is \<open>N\<close>, while
  \<^verbatim>\<open>totalRequests\<close> is still 0; every update of \<^verbatim>\<open>averageResponseTime\<close> divided by
  that 0, so after at least one call the average is not a finite number.
\<close>

theorem lightweight_calls_bypass_totalRequests:
  assumes "\<forall>k. gtfs k \<noteq> Hangs"
    and "totalRequests (stats (mainBreaker w)) = 0"
    and "successfulRequests (stats (mainBreaker w)) = 0"
    and "failedRequests (stats (mainBreaker w)) = 0"
  shows "(\<exists>rs wd' w'. lightweightCalls gaps gtfs wd w = Some (rs, wd', w')
          \<and> calls wd' = calls wd + length gaps
          \<and> map Some rs = map (awaited \<circ> gtfs) [calls wd..<calls wd + length gaps]
          \<and> successfulRequests (stats (mainBreaker w'))
              = length (filter (resolves \<circ> gtfs) [calls wd..<calls wd + length gaps])
          \<and> failedRequests (stats (mainBreaker w'))
              = length (filter (rejects \<circ> gtfs) [calls wd..<calls wd + length gaps])
          \<and> successfulRequests (stats (mainBreaker w')) + failedRequests (stats (mainBreaker w'))
              = length gaps
          \<and> totalRequests (stats (mainBreaker w')) = 0
          \<and> (gaps \<noteq> [] \<longrightarrow> \<not> isFinite (averageResponseTime (stats (mainBreaker w')))))
       \<and> (gtfs (calls wd) = Resolves d v \<longrightarrow>
            (\<exists>w'. lightweightMode gtfs wd w =
                     Some (Inr (Updated v), wd\<lparr>clock := clock wd + int d, calls := calls wd + 1\<rparr>, w')
                 \<and> mainBreaker w'
                     = onSuccess (clock wd + int d) (int d)
                         (runTimers (clock wd + int d) (mainBreaker w))))
       \<and> (gtfs (calls wd) = Rejects d err \<longrightarrow>
            (\<exists>w'. lightweightMode gtfs wd w =
                     Some (Inl err, wd\<lparr>clock := clock wd + int d, calls := calls wd + 1\<rparr>, w')
                 \<and> mainBreaker w'
                     = onFailure (clock wd + int d) err (int d)
                         (runTimers (clock wd + int d) (mainBreaker w))))"
proof (intro conjI impI)
  from lightweightCalls_stats[OF assms(1,2), of gaps wd]
  obtain rs wd' w' where run: "lightweightCalls gaps gtfs wd w = Some (rs, wd', w')"
      "map Some rs = map (awaited \<circ> gtfs) [calls wd..<calls wd + length gaps]"
      "calls wd' = calls wd + length gaps"
      "totalRequests (stats (mainBreaker w')) = 0"
      "successfulRequests (stats (mainBreaker w'))
         = length (filter (resolves \<circ> gtfs) [calls wd..<calls wd + length gaps])"
      "failedRequests (stats (mainBreaker w'))
         = length (filter (rejects \<circ> gtfs) [calls wd..<calls wd + length gaps])"
      "gaps \<noteq> [] \<longrightarrow> \<not> isFinite (averageResponseTime (stats (mainBreaker w')))"
    using assms(3,4) by auto
  have sum: "successfulRequests (stats (mainBreaker w')) + failedRequests (stats (mainBreaker w'))
      = length gaps"
    unfolding run(5,6) using resolves_or_rejects[OF assms(1), of "[calls wd..<calls wd + length gaps]"]
    by simp
  show "\<exists>rs wd' w'. lightweightCalls gaps gtfs wd w = Some (rs, wd', w')
          \<and> calls wd' = calls wd + length gaps
          \<and> map Some rs = map (awaited \<circ> gtfs) [calls wd..<calls wd + length gaps]
          \<and> successfulRequests (stats (mainBreaker w'))
              = length (filter (resolves \<circ> gtfs) [calls wd..<calls wd + length gaps])
          \<and> failedRequests (stats (mainBreaker w'))
              = length (filter (rejects \<circ> gtfs) [calls wd..<calls wd + length gaps])
          \<and> successfulRequests (stats (mainBreaker w')) + failedRequests (stats (mainBreaker w'))
              = length gaps
          \<and> totalRequests (stats (mainBreaker w')) = 0
          \<and> (gaps \<noteq> [] \<longrightarrow> \<not> isFinite (averageResponseTime (stats (mainBreaker w'))))"
    using run sum by blast
next
  assume "gtfs (calls wd) = Resolves d v"
  then show "\<exists>w'. lightweightMode gtfs wd w =
                     Some (Inr (Updated v), wd\<lparr>clock := clock wd + int d, calls := calls wd + 1\<rparr>, w')
                 \<and> mainBreaker w'
                     = onSuccess (clock wd + int d) (int d)
                         (runTimers (clock wd + int d) (mainBreaker w))"
    using lightweightMode_resolves[of gtfs wd d v w] by blast
next
  assume "gtfs (calls wd) = Rejects d err"
  then show "\<exists>w'. lightweightMode gtfs wd w =
                     Some (Inl err, wd\<lparr>clock := clock wd + int d, calls := calls wd + 1\<rparr>, w')
                 \<and> mainBreaker w'
                     = onFailure (clock wd + int d) err (int d)
                         (runTimers (clock wd + int d) (mainBreaker w))"
    using lightweightMode_rejects[of gtfs wd d err w] by blast
qed

text \<open>
  Three calls against the feed whose first invocation rejects and whose later ones
  resolve: the first call throws the error, the other two return the value, and the main
  breaker has counted one failure, two successes and no request.
\<close>

theorem lightweight_calls_bypass_totalRequests_witness:
  "\<exists>wd' w'. lightweightCalls [5, 5, 5] failsOnceThenResolves startOfDay
               (newRobustGtfsWrapper defaultEnvironment)
             = Some ([Inl fetchFailed, Inr (Updated ''ok''), Inr (Updated ''ok'')], wd', w')
     \<and> calls wd' = 3
     \<and> successfulRequests (stats (mainBreaker w')) = 2
     \<and> failedRequests (stats (mainBreaker w')) = 1
     \<and> totalRequests (stats (mainBreaker w')) = 0
     \<and> \<not> isFinite (averageResponseTime (stats (mainBreaker w')))"
proof -
  let ?fresh = "newRobustGtfsWrapper defaultEnvironment"
  have live: "\<forall>k. failsOnceThenResolves k \<noteq> Hangs"
    by (simp add: failsOnceThenResolves_def)
  have fresh: "totalRequests (stats (mainBreaker ?fresh)) = 0"
    "successfulRequests (stats (mainBreaker ?fresh)) = 0"
    "failedRequests (stats (mainBreaker ?fresh)) = 0"
    by (simp_all add: newRobustGtfsWrapper_def newCircuitBreaker_def Let_def)
  have range: "[calls startOfDay..<calls startOfDay + length [5, 5, 5 :: nat]] = [0, 1, 2]"
    by (simp add: startOfDay_def upt_rec)
  have start: "calls startOfDay + length [5, 5, 5 :: nat] = 3"
    by (simp add: startOfDay_def)
  from lightweight_calls_bypass_totalRequests[OF live fresh, of "[5, 5, 5]" startOfDay]
  obtain rs wd' w' where run:
      "lightweightCalls [5, 5, 5] failsOnceThenResolves startOfDay ?fresh = Some (rs, wd', w')"
      "calls wd' = calls startOfDay + length [5, 5, 5 :: nat]"
      "map Some rs = map (awaited \<circ> failsOnceThenResolves)
                       [calls startOfDay..<calls startOfDay + length [5, 5, 5 :: nat]]"
      "successfulRequests (stats (mainBreaker w'))
         = length (filter (resolves \<circ> failsOnceThenResolves)
                     [calls startOfDay..<calls startOfDay + length [5, 5, 5 :: nat]])"
      "failedRequests (stats (mainBreaker w'))
         = length (filter (rejects \<circ> failsOnceThenResolves)
                     [calls startOfDay..<calls startOfDay + length [5, 5, 5 :: nat]])"
      "totalRequests (stats (mainBreaker w')) = 0"
      "[5, 5, 5 :: nat] \<noteq> [] \<longrightarrow> \<not> isFinite (averageResponseTime (stats (mainBreaker w')))"
    by blast
  have "map Some rs = map Some [Inl fetchFailed, Inr (Updated ''ok''), Inr (Updated ''ok'')]"
    using run(3) unfolding range by (simp add: failsOnceThenResolves_def)
  then have rs: "rs = [Inl fetchFailed, Inr (Updated ''ok''), Inr (Updated ''ok'')]"
    by (simp only: inj_map_eq_map[OF inj_Some])
  have good: "successfulRequests (stats (mainBreaker w')) = 2"
    using run(4) unfolding range by (simp add: failsOnceThenResolves_def)
  have bad: "failedRequests (stats (mainBreaker w')) = 1"
    using run(5) unfolding range by (simp add: failsOnceThenResolves_def)
  have many: "calls wd' = 3"
    using run(2) start by simp
  show ?thesis
    using run(1,6,7) rs good bad many by blast
qed


section \<open>Aggregated health\<close>

text \<open>
  C5. The status that \<^verbatim>\<open>getHealthStatus\<close> reports is CRITICAL if a breaker is OPEN or
  \<^verbatim>\<open>consecutiveFailures\<close> is at least 5, else WARNING if \<^verbatim>\<open>consecutiveFailures\<close> is
  at least 1, else HEALTHY; but when \<^verbatim>\<open>lastSuccessfulUpdate\<close> is set and more than
  300000 ms old, the status is DEGRADED whatever the first determination was, CRITICAL
  included. The test for "set" is JavaScript truthiness, which the timestamp 0 fails;
  \<^verbatim>\<open>lastSuccessfulUpdate\<close> only ever holds a value of \<^verbatim>\<open>Date.now()\<close>, which is
  positive on any clock set after 1 January 1970, so the statement excludes that value.
\<close>

theorem health_status_classification:
  assumes "lastSuccessfulUpdate w \<noteq> Some 0"
  shows "status (getHealthStatus now w) =
           (if (case lastSuccessfulUpdate w of None \<Rightarrow> False | Some t \<Rightarrow> 300000 < now - t)
              then DEGRADED
            else if state (mainBreaker w) = OPEN \<or> state (networkBreaker w) = OPEN
                    \<or> 5 \<le> consecutiveFailures w then CRITICAL
            else if 1 \<le> consecutiveFailures w then WARNING
            else HEALTHY)"
  using assms
  by (auto simp: getHealthStatus_def Let_def truthy_def toNumber_def split: option.splits)

theorem health_status_classification_witness:
  "5 \<le> consecutiveFailures staleWrapper
   \<and> lastSuccessfulUpdate staleWrapper = Some 1000
   \<and> status (getHealthStatus 400000 staleWrapper) = DEGRADED
   \<and> status (getHealthStatus 200000 staleWrapper) = CRITICAL"
proof -
  have set: "lastSuccessfulUpdate staleWrapper \<noteq> Some 0"
    by (simp add: staleWrapper_def)
  show ?thesis
    using health_status_classification[OF set, of 400000]
      health_status_classification[OF set, of 200000]
    by (simp add: staleWrapper_def)
qed


section \<open>Timers that are never cleared\<close>

text \<open>
  C7. \<^verbatim>\<open>stats.timeouts\<close> is to count the calls of \<^verbatim>\<open>execute\<close> that fail by
  timeout, and a call that succeeds is not to increment it. The timer that
  \<^verbatim>\<open>execute\<close> registers is never cleared, and its callback increments the counter
  before it rejects. On the sample breaker (timeout 1000 ms) a call made at 0 ms whose
  operation resolves after 10 ms succeeds, with \<^verbatim>\<open>stats.timeouts\<close> still 0 and its timer
  pending for 1000 ms; when that timer fires the counter is 1 although no call has failed,
  and a second successful call at 5000 ms finds it so.
\<close>

theorem timer_of_successful_call_counts_timeout:
  "result (execute (Resolves 10 ''ok'') 0 sampleBreaker) = Inr ''ok''
   \<and> finishedAt (execute (Resolves 10 ''ok'') 0 sampleBreaker) = 10
   \<and> timeouts (stats (after (execute (Resolves 10 ''ok'') 0 sampleBreaker))) = 0
   \<and> pendingTimers (after (execute (Resolves 10 ''ok'') 0 sampleBreaker)) = [1000]
   \<and> timeouts (stats (runTimers 1000 (after (execute (Resolves 10 ''ok'') 0 sampleBreaker)))) = 1
   \<and> failedRequests (stats (runTimers 1000 (after (execute (Resolves 10 ''ok'') 0 sampleBreaker)))) = 0
   \<and> result (execute (Resolves 10 ''ok'') 5000 (after (execute (Resolves 10 ''ok'') 0 sampleBreaker)))
       = Inr ''ok''
   \<and> timeouts (stats (after (execute (Resolves 10 ''ok'') 5000
         (after (execute (Resolves 10 ''ok'') 0 sampleBreaker))))) = 1
   \<and> failedRequests (stats (after (execute (Resolves 10 ''ok'') 5000
         (after (execute (Resolves 10 ''ok'') 0 sampleBreaker))))) = 0"
  by code_simp


section \<open>Capability detection\<close>

text \<open>
  C8. Capability detection is to run once, on the first call, after which
  \<^verbatim>\<open>nativeTimeoutSupported\<close> and \<^verbatim>\<open>wrapperEnabled\<close> do not change. The guard of
  \<^verbatim>\<open>updateGtfsRealtime\<close> is \<^verbatim>\<open>lastSuccessfulUpdate === null\<close>, which stays true until
  a call succeeds. Here the first call, with a feed configuration without a native
  timeout, ends in the graceful fallback and leaves \<^verbatim>\<open>nativeTimeoutSupported\<close> false;
  the second call, with a configuration that has \<^verbatim>\<open>downloadTimeout\<close>, runs detection
  again, sets the flag, and is served in lightweight mode (the error is thrown).
\<close>

theorem detection_runs_again_after_failed_first_call:
  "resultOf firstUpdate = Some (Inr (Fallback \<lparr> success = False, fallbackApplied = True,
       fallbackMessage = ''Using cached realtime data due to update failures'',
       timeSinceLastSuccess = None \<rparr>))
   \<and> map_option nativeTimeoutSupported (wrapperOf firstUpdate) = Some False
   \<and> map_option lastSuccessfulUpdate (wrapperOf firstUpdate) = Some None
   \<and> map_option nativeTimeoutSupported (wrapperOf secondUpdate) = Some True
   \<and> resultOf secondUpdate = Some (Inl dataFormatError)"
  by code_simp


section \<open>Entries left in the retry tracker\<close>

text \<open>
  C9. Every entry of \<^verbatim>\<open>retryTracker\<close> is to be removed when its operation ends. Each
  entry into \<^verbatim>\<open>fullProtectionMode\<close> takes a new identity from the clock, and the final
  cleanup deletes only the identity of the last attempt. Here the first attempt (identity
  \<^verbatim>\<open>gtfs-rt-1000\<close>) fails and is retried, the retry succeeds, and the call returns the
  operation's value; the counter stored under \<^verbatim>\<open>gtfs-rt-1000\<close> is still in the tracker.
\<close>

theorem retry_counter_left_behind:
  "resultOf recoveredRun = Some (Inr (Updated ''ok''))
   \<and> map_option calls (worldOf recoveredRun) = Some 2
   \<and> map_option retryLog (worldOf recoveredRun) = Some [(GtfsRt 1000, 2000, 1)]
   \<and> trackerEntry recoveredRun (GtfsRt 1000) = Some 1"
  by code_simp


section \<open>Which errors are retried\<close>

lemma shouldRetry_iff:
  "shouldRetry err errorType =
     (errorType = NETWORK_ERROR \<or> errorType = TIMEOUT_ERROR \<or> errorType = UNKNOWN_ERROR)"
  by (cases errorType) (simp_all add: shouldRetry_def)

lemma classifyError_circuit_open:
  "code err = Some ''CIRCUIT_OPEN'' \<Longrightarrow> classifyError err = CIRCUIT_BREAKER_ERROR"
  by (simp add: classifyError_def)

lemma handleUpdateError_terminal:
  assumes "code err = Some ''CIRCUIT_OPEN'' \<or> \<not> shouldRetry err (classifyError err)
           \<or> retries (config w) \<le> int (fst (getCurrentRetryCount operationId w))"
  shows "\<exists>w'. handleUpdateError n err operationId gtfs wd w =
           Some (Inr (Fallback (getGracefulFallback (clock wd) w)), wd, w')"
proof (cases "code err = Some ''CIRCUIT_OPEN''")
  case True
  show ?thesis
    unfolding handleUpdateError_circuit_open[OF True]
    by (simp add: getGracefulFallback_def)
next
  case False
  with assms have stop: "\<not> (shouldRetry err (classifyError err)
            \<and> int (fst (getCurrentRetryCount operationId w)) < retries (config w))"
    by auto
  show ?thesis
    unfolding handleUpdateError_give_up[OF False stop]
    by (simp add: getGracefulFallback_def)
qed

lemma execute_rejected:
  assumes "state cb \<noteq> OPEN \<or> resetTimeout cb \<le> now - toNumber (lastFailureTime cb)"
    and "int d < timerDelay (timeout cb)"
  shows "result (execute (Rejects d err) now cb) = Inl err"
    and "invoked (execute (Rejects d err) now cb)"
    and "finishedAt (execute (Rejects d err) now cb) = now + int d"
  using assms
  by (auto simp: execute_def checkCircuit_def Let_def split: prod.splits settled.splits)

lemma fullProtectionMode_no_retry:
  assumes adm: "state (getBreaker (selectCircuitBreaker w) w) \<noteq> OPEN
            \<or> resetTimeout (getBreaker (selectCircuitBreaker w) w)
                 \<le> clock wd - toNumber (lastFailureTime (getBreaker (selectCircuitBreaker w) w))"
    and rej: "gtfs (calls wd) = Rejects d err"
    and fast: "int d < timerDelay (timeout (getBreaker (selectCircuitBreaker w) w))"
    and stop: "\<not> shouldRetry err (classifyError err)"
  shows "\<exists>w'. fullProtectionMode (Suc n) gtfs wd w =
           Some (Inr (Fallback (getGracefulFallback (clock wd + int d) w)),
                 wd\<lparr>clock := clock wd + int d, calls := calls wd + 1\<rparr>, w')"
proof -
  let ?cb = "getBreaker (selectCircuitBreaker w) w"
  let ?ex = "execute (Rejects d err) (clock wd) ?cb"
  let ?wd1 = "wd\<lparr>clock := clock wd + int d, calls := calls wd + 1\<rparr>"
  let ?w1 = "tick (clock wd + int d) (putBreaker (selectCircuitBreaker w) (after ?ex) w)"
  note ex = execute_rejected[OF adm fast, of err]
  have unfold: "fullProtectionMode (Suc n) gtfs wd w =
      handleUpdateError n err (GtfsRt (clock wd)) gtfs ?wd1 ?w1"
    using ex rej by (simp add: fullProtectionMode.simps Let_def)
  from handleUpdateError_terminal[of err ?w1 "GtfsRt (clock wd)" n gtfs ?wd1] stop
  obtain w' where "handleUpdateError n err (GtfsRt (clock wd)) gtfs ?wd1 ?w1 =
      Some (Inr (Fallback (getGracefulFallback (clock ?wd1) ?w1)), ?wd1, w')"
    by blast
  moreover have "getGracefulFallback (clock ?wd1) ?w1 = getGracefulFallback (clock wd + int d) w"
    by (simp add: getGracefulFallback_def)
  ultimately show ?thesis
    using unfold by simp
qed

text \<open>
  C6. \<^verbatim>\<open>shouldRetry\<close> accepts exactly the error types NETWORK_ERROR, TIMEOUT_ERROR and
  UNKNOWN_ERROR. Whatever the retry counter and however many entries into full-protection
  mode are still allowed, \<^verbatim>\<open>handleUpdateError\<close> on an error classified DATA_FORMAT_ERROR
  or CIRCUIT_BREAKER_ERROR returns the graceful fallback at once and leaves the world as it
  is: no wait, no further invocation. In particular, when the selected breaker admits the
  call and the first invocation rejects, before the timer, with an error classified
  DATA_FORMAT_ERROR, the call in full-protection mode completes with the fallback after
  exactly one invocation of the wrapped operation.
\<close>

theorem only_network_timeout_unknown_are_retried:
  "shouldRetry err errorType =
     (errorType = NETWORK_ERROR \<or> errorType = TIMEOUT_ERROR \<or> errorType = UNKNOWN_ERROR)
   \<and> (classifyError err = DATA_FORMAT_ERROR \<or> classifyError err = CIRCUIT_BREAKER_ERROR \<longrightarrow>
        (\<exists>w'. handleUpdateError n err operationId gtfs wd w =
           Some (Inr (Fallback (getGracefulFallback (clock wd) w)), wd, w')))
   \<and> ((state (getBreaker (selectCircuitBreaker w) w) \<noteq> OPEN
         \<or> resetTimeout (getBreaker (selectCircuitBreaker w) w)
              \<le> clock wd - toNumber (lastFailureTime (getBreaker (selectCircuitBreaker w) w)))
       \<and> gtfs (calls wd) = Rejects d err
       \<and> int d < timerDelay (timeout (getBreaker (selectCircuitBreaker w) w))
       \<and> classifyError err = DATA_FORMAT_ERROR \<longrightarrow>
        (\<exists>w'. fullProtectionMode (Suc n) gtfs wd w =
           Some (Inr (Fallback (getGracefulFallback (clock wd + int d) w)),
                 wd\<lparr>clock := clock wd + int d, calls := calls wd + 1\<rparr>, w')))"
proof (intro conjI impI)
  show "shouldRetry err errorType =
     (errorType = NETWORK_ERROR \<or> errorType = TIMEOUT_ERROR \<or> errorType = UNKNOWN_ERROR)"
    by (rule shouldRetry_iff)
next
  assume "classifyError err = DATA_FORMAT_ERROR \<or> classifyError err = CIRCUIT_BREAKER_ERROR"
  then have "\<not> shouldRetry err (classifyError err)"
    by (auto simp: shouldRetry_iff)
  then show "\<exists>w'. handleUpdateError n err operationId gtfs wd w =
           Some (Inr (Fallback (getGracefulFallback (clock wd) w)), wd, w')"
    by (intro handleUpdateError_terminal) simp
next
  assume h: "(state (getBreaker (selectCircuitBreaker w) w) \<noteq> OPEN
         \<or> resetTimeout (getBreaker (selectCircuitBreaker w) w)
              \<le> clock wd - toNumber (lastFailureTime (getBreaker (selectCircuitBreaker w) w)))
       \<and> gtfs (calls wd) = Rejects d err
       \<and> int d < timerDelay (timeout (getBreaker (selectCircuitBreaker w) w))
       \<and> classifyError err = DATA_FORMAT_ERROR"
  then have "classifyError err = DATA_FORMAT_ERROR"
    by blast
  then have "\<not> shouldRetry err (classifyError err)"
    by (simp add: shouldRetry_iff)
  with h show "\<exists>w'. fullProtectionMode (Suc n) gtfs wd w =
           Some (Inr (Fallback (getGracefulFallback (clock wd + int d) w)),
                 wd\<lparr>clock := clock wd + int d, calls := calls wd + 1\<rparr>, w')"
    by (intro fullProtectionMode_no_retry) blast+
qed

theorem only_network_timeout_unknown_are_retried_witness:
  "classifyError dataFormatError = DATA_FORMAT_ERROR
   \<and> \<not> shouldRetry dataFormatError DATA_FORMAT_ERROR
   \<and> resultOf dataFormatRun = Some (Inr (Fallback \<lparr> success = False, fallbackApplied = True,
        fallbackMessage = ''Using cached realtime data due to update failures'',
        timeSinceLastSuccess = None \<rparr>))
   \<and> worldOf dataFormatRun = Some \<lparr> clock = 1010, calls = 1, retryLog = [] \<rparr>"
proof -
  let ?w = "newRobustGtfsWrapper defaultEnvironment"
  have cls: "classifyError dataFormatError = DATA_FORMAT_ERROR"
    by code_simp
  have adm: "state (getBreaker (selectCircuitBreaker ?w) ?w) \<noteq> OPEN
         \<or> resetTimeout (getBreaker (selectCircuitBreaker ?w) ?w)
              \<le> clock startOfDay - toNumber (lastFailureTime (getBreaker (selectCircuitBreaker ?w) ?w))"
    by code_simp
  have rej: "alwaysDataFormatError (calls startOfDay) = Rejects 10 dataFormatError"
    by (simp add: alwaysDataFormatError_def)
  have fast: "int 10 < timerDelay (timeout (getBreaker (selectCircuitBreaker ?w) ?w))"
    by code_simp
  have fb: "getGracefulFallback (clock startOfDay + int 10) ?w =
      \<lparr> success = False, fallbackApplied = True,
        fallbackMessage = ''Using cached realtime data due to update failures'',
        timeSinceLastSuccess = None \<rparr>"
    by code_simp
  have wd: "startOfDay\<lparr>clock := clock startOfDay + int 10, calls := calls startOfDay + 1\<rparr>
      = \<lparr> clock = 1010, calls = 1, retryLog = [] \<rparr>"
    by (simp add: startOfDay_def)
  have ten: "(10::nat) = Suc 9" by simp
  from only_network_timeout_unknown_are_retried
      [of dataFormatError DATA_FORMAT_ERROR 9 "GtfsRt 1000" alwaysDataFormatError startOfDay ?w 10]
    cls adm rej fast
  obtain w' where "fullProtectionMode (Suc 9) alwaysDataFormatError startOfDay ?w =
      Some (Inr (Fallback (getGracefulFallback (clock startOfDay + int 10) ?w)),
            startOfDay\<lparr>clock := clock startOfDay + int 10, calls := calls startOfDay + 1\<rparr>, w')"
    by blast
  then have "dataFormatRun = Some (Inr (Fallback \<lparr> success = False, fallbackApplied = True,
        fallbackMessage = ''Using cached realtime data due to update failures'',
        timeSinceLastSuccess = None \<rparr>), \<lparr> clock = 1010, calls = 1, retryLog = [] \<rparr>, w')"
    using fb wd by (simp add: dataFormatRun_def)
  then show ?thesis
    using cls by (auto simp: resultOf_def worldOf_def shouldRetry_def)
qed


section \<open>The graceful fallback\<close>

lemma getGracefulFallback_eq:
  assumes "lastSuccessfulUpdate w \<noteq> Some 0"
  shows "getGracefulFallback now w =
     \<lparr> success = False, fallbackApplied = True,
       fallbackMessage = ''Using cached realtime data due to update failures'',
       timeSinceLastSuccess =
         (case lastSuccessfulUpdate w of None \<Rightarrow> None | Some t \<Rightarrow> Some (now - t)) \<rparr>"
  using assms
  by (auto simp: getGracefulFallback_def truthy_def toNumber_def split: option.splits)

text \<open>
  C4. In full-protection mode a terminal failure is returned, not thrown. Whenever
  \<^verbatim>\<open>handleUpdateError\<close> does not retry (the error is a circuit-open rejection, or is
  not retryable, or the retry counter has reached \<^verbatim>\<open>retries\<close>) it returns, without
  entering full-protection mode again, the object with \<^verbatim>\<open>success: false\<close>,
  \<^verbatim>\<open>fallbackApplied: true\<close>, the fixed message, and \<^verbatim>\<open>timeSinceLastSuccess\<close> equal to
  the current time minus \<^verbatim>\<open>lastSuccessfulUpdate\<close>, or \<^verbatim>\<open>null\<close> if there has been no
  success. Every call in full-protection mode that completes returns either the
  operation's value or that object; it never throws. And the call does complete, within
  \<open>m + 2\<close> entries into full-protection mode, when the selected breaker stays open for
  longer than the longest backoff (30 s) and is at most \<open>m\<close> failures away from its
  threshold. As in C5, the timestamp 0, which \<^verbatim>\<open>Date.now()\<close> does not return, is
  excluded.
\<close>

theorem terminal_failure_returns_fallback:
  assumes "lastSuccessfulUpdate w \<noteq> Some 0"
  shows "(code err = Some ''CIRCUIT_OPEN'' \<or> \<not> shouldRetry err (classifyError err)
            \<or> retries (config w) \<le> int (fst (getCurrentRetryCount operationId w)) \<longrightarrow>
          (\<exists>w'. handleUpdateError n err operationId gtfs wd w =
             Some (Inr (Fallback
                     \<lparr> success = False, fallbackApplied = True,
                       fallbackMessage = ''Using cached realtime data due to update failures'',
                       timeSinceLastSuccess =
                         (case lastSuccessfulUpdate w of
                            None \<Rightarrow> None | Some t \<Rightarrow> Some (clock wd - t)) \<rparr>),
                   wd, w')))
       \<and> (fullProtectionMode n gtfs wd w = Some (r, wd', w') \<longrightarrow>
            (\<exists>v. r = Inr (Updated v))
          \<or> r = Inr (Fallback
                     \<lparr> success = False, fallbackApplied = True,
                       fallbackMessage = ''Using cached realtime data due to update failures'',
                       timeSinceLastSuccess =
                         (case lastSuccessfulUpdate w of
                            None \<Rightarrow> None | Some t \<Rightarrow> Some (clock wd' - t)) \<rparr>))
       \<and> (30000 < resetTimeout (getBreaker (selectCircuitBreaker w) w)
            \<and> failureThreshold (getBreaker (selectCircuitBreaker w) w)
                 - int (failureCount (getBreaker (selectCircuitBreaker w) w)) \<le> int m
            \<and> m + 2 \<le> n \<longrightarrow>
            (\<exists>x. fullProtectionMode n gtfs wd w = Some x))"
proof (intro conjI impI)
  assume "code err = Some ''CIRCUIT_OPEN'' \<or> \<not> shouldRetry err (classifyError err)
            \<or> retries (config w) \<le> int (fst (getCurrentRetryCount operationId w))"
  from handleUpdateError_terminal[OF this, of n gtfs wd]
  show "\<exists>w'. handleUpdateError n err operationId gtfs wd w =
             Some (Inr (Fallback
                     \<lparr> success = False, fallbackApplied = True,
                       fallbackMessage = ''Using cached realtime data due to update failures'',
                       timeSinceLastSuccess =
                         (case lastSuccessfulUpdate w of
                            None \<Rightarrow> None | Some t \<Rightarrow> Some (clock wd - t)) \<rparr>),
                   wd, w')"
    unfolding getGracefulFallback_eq[OF assms] .
next
  assume "fullProtectionMode n gtfs wd w = Some (r, wd', w')"
  with run_shape[of n]
  have "(\<exists>v. r = Inr (Updated v)) \<or> r = Inr (Fallback (getGracefulFallback (clock wd') w))"
    by blast
  then show "(\<exists>v. r = Inr (Updated v))
          \<or> r = Inr (Fallback
                     \<lparr> success = False, fallbackApplied = True,
                       fallbackMessage = ''Using cached realtime data due to update failures'',
                       timeSinceLastSuccess =
                         (case lastSuccessfulUpdate w of
                            None \<Rightarrow> None | Some t \<Rightarrow> Some (clock wd' - t)) \<rparr>)"
    unfolding getGracefulFallback_eq[OF assms] .
next
  assume "30000 < resetTimeout (getBreaker (selectCircuitBreaker w) w)
            \<and> failureThreshold (getBreaker (selectCircuitBreaker w) w)
                 - int (failureCount (getBreaker (selectCircuitBreaker w) w)) \<le> int m
            \<and> m + 2 \<le> n"
  then show "\<exists>x. fullProtectionMode n gtfs wd w = Some x"
    by (intro fullProtectionMode_completes[of w m n]) blast+
qed


theorem terminal_failure_returns_fallback_witness:
  "(\<exists>w'. handleUpdateError 0 dataFormatError (GtfsRt 400000) alwaysDataFormatError
            \<lparr> clock = 400010, calls = 1, retryLog = [] \<rparr> staleWrapper =
          Some (Inr (Fallback \<lparr> success = False, fallbackApplied = True,
                  fallbackMessage = ''Using cached realtime data due to update failures'',
                  timeSinceLastSuccess = Some 399010 \<rparr>),
                \<lparr> clock = 400010, calls = 1, retryLog = [] \<rparr>, w'))
   \<and> resultOf persistentFailureRun =
        Some (Inr (Fallback \<lparr> success = False, fallbackApplied = True,
                fallbackMessage = ''Using cached realtime data due to update failures'',
                timeSinceLastSuccess = None \<rparr>))
   \<and> resultOf failureAfterSuccessRun =
        Some (Inr (Fallback \<lparr> success = False, fallbackApplied = True,
                fallbackMessage = ''Using cached realtime data due to update failures'',
                timeSinceLastSuccess = Some 99000 \<rparr>))"
proof -
  let ?fresh = "newRobustGtfsWrapper defaultEnvironment"
  have stale: "lastSuccessfulUpdate staleWrapper \<noteq> Some 0"
    "lastSuccessfulUpdate staleWrapper = Some 1000"
    by (simp_all add: staleWrapper_def)
  have stop: "\<not> shouldRetry dataFormatError (classifyError dataFormatError)"
    by code_simp
  have one: "\<exists>w'. handleUpdateError 0 dataFormatError (GtfsRt 400000) alwaysDataFormatError
            \<lparr> clock = 400010, calls = 1, retryLog = [] \<rparr> staleWrapper =
          Some (Inr (Fallback \<lparr> success = False, fallbackApplied = True,
                  fallbackMessage = ''Using cached realtime data due to update failures'',
                  timeSinceLastSuccess = Some 399010 \<rparr>),
                \<lparr> clock = 400010, calls = 1, retryLog = [] \<rparr>, w')"
    using terminal_failure_returns_fallback[OF stale(1), of dataFormatError "GtfsRt 400000" 0
        alwaysDataFormatError "\<lparr> clock = 400010, calls = 1, retryLog = [] \<rparr>"] stop stale(2)
    by simp
  have never: "lastSuccessfulUpdate ?fresh \<noteq> Some 0" "lastSuccessfulUpdate ?fresh = None"
    by (simp_all add: newRobustGtfsWrapper_def Let_def)
  have enough: "30000 < resetTimeout (getBreaker (selectCircuitBreaker ?fresh) ?fresh)
      \<and> failureThreshold (getBreaker (selectCircuitBreaker ?fresh) ?fresh)
           - int (failureCount (getBreaker (selectCircuitBreaker ?fresh) ?fresh)) \<le> int 5
      \<and> 5 + 2 \<le> (10::nat)"
    by code_simp
  from terminal_failure_returns_fallback[OF never(1), of _ _ 10 alwaysFetchFailed startOfDay _ _ _ 5]
    enough
  obtain r wd' w' where run: "persistentFailureRun = Some (r, wd', w')"
    unfolding persistentFailureRun_def by (metis prod_cases3)
  have gaveUp: "resultOf persistentFailureRun =
        Some (Inr (Fallback \<lparr> success = False, fallbackApplied = True,
                fallbackMessage = ''Using cached realtime data due to update failures'',
                timeSinceLastSuccess = None \<rparr>))"
    by code_simp
  have two: "resultOf persistentFailureRun =
        Some (Inr (Fallback \<lparr> success = False, fallbackApplied = True,
                fallbackMessage = ''Using cached realtime data due to update failures'',
                timeSinceLastSuccess = None \<rparr>))"
    using terminal_failure_returns_fallback[OF never(1), of _ _ 10 alwaysFetchFailed startOfDay r wd' w']
      run gaveUp never(2)
    by (auto simp: persistentFailureRun_def resultOf_def)
  have three: "resultOf failureAfterSuccessRun =
        Some (Inr (Fallback \<lparr> success = False, fallbackApplied = True,
                fallbackMessage = ''Using cached realtime data due to update failures'',
                timeSinceLastSuccess = Some 99000 \<rparr>))"
    by code_simp
  show ?thesis
    using one two three by blast
qed


section \<open>The retry policy\<close>

text \<open>
  C3, as stated: the retry counter is attached to the identity of the logical operation,
  so that a persistently failing operation with retryable errors is invoked at most
  \<open>1 + maxRetries\<close> times, and the wait before a retry is
  \<open>min (2 ^ attempts * 1000) 30000\<close> ms, \<open>attempts\<close> being the counter. On a new wrapper
  with the default settings (\<open>maxRetries = 2\<close>) and a feed that always rejects with a
  network error, the wrapped operation is invoked 5 times, until the main breaker opens,
  and every retry is announced with attempt number 1 and a wait of 2000 ms, where the
  stated formula gives 1000 ms for a counter of 0.
\<close>

theorem retry_bound_counterexample:
  "retries (config (newRobustGtfsWrapper defaultEnvironment)) = 2
   \<and> classifyError fetchFailed = NETWORK_ERROR
   \<and> resultOf persistentFailureRun = Some (Inr (Fallback \<lparr> success = False, fallbackApplied = True,
        fallbackMessage = ''Using cached realtime data due to update failures'',
        timeSinceLastSuccess = None \<rparr>))
   \<and> map_option calls (worldOf persistentFailureRun) = Some 5
   \<and> \<not> (5 :: int) \<le> 1 + retries (config (newRobustGtfsWrapper defaultEnvironment))
   \<and> map_option retryLog (worldOf persistentFailureRun)
       = Some [(GtfsRt 1000, 2000, 1), (GtfsRt 3010, 2000, 1), (GtfsRt 5020, 2000, 1),
               (GtfsRt 7030, 2000, 1), (GtfsRt 9040, 2000, 1)]
   \<and> min (2 ^ 0 * 1000) 30000 \<noteq> (2000 :: int)"
  by code_simp

text \<open>
  C3, amended. When \<^verbatim>\<open>handleUpdateError\<close> handles a failure that is not a circuit-open
  rejection, it reads the attempts-so-far counter \<open>a\<close> stored under the operation
  identity it is given (0 if there is none). If the error is retryable and \<open>a\<close> is below
  \<^verbatim>\<open>retries\<close>, it stores \<open>a + 1\<close>, announces attempt \<open>a + 1\<close>, waits
  \<open>min (2 ^ (a + 1) * 1000) 30000\<close> ms and enters full-protection mode again; otherwise
  it returns the fallback and removes the counter. Over any completed call in
  full-protection mode, every announced retry has an attempt number between 1 and
  \<^verbatim>\<open>retries\<close> and the wait \<open>min (2 ^ attempt * 1000) 30000\<close>, the announced waits have
  all passed, and the wrapped operation is invoked at most once more than there are
  announced retries.
\<close>

theorem retry_policy:
  assumes "a = (case retryTracker w operationId of None \<Rightarrow> 0 | Some c \<Rightarrow> c)"
  shows "(code err \<noteq> Some ''CIRCUIT_OPEN''
            \<and> shouldRetry err (classifyError err) \<and> int a < retries (config w) \<longrightarrow>
           handleUpdateError n err operationId gtfs wd w =
             fullProtectionMode n gtfs
               (wd\<lparr>retryLog := retryLog wd @ [(operationId, min (2 ^ (a + 1) * 1000) 30000, a + 1)],
                   clock := clock wd + min (2 ^ (a + 1) * 1000) 30000\<rparr>)
               (tick (clock wd + min (2 ^ (a + 1) * 1000) 30000)
                  (w\<lparr>retryTracker := (retryTracker w)(operationId \<mapsto> a + 1)\<rparr>)))
       \<and> (code err \<noteq> Some ''CIRCUIT_OPEN''
            \<and> \<not> (shouldRetry err (classifyError err) \<and> int a < retries (config w)) \<longrightarrow>
           handleUpdateError n err operationId gtfs wd w =
             Some (Inr (Fallback (getGracefulFallback (clock wd) w)), wd,
                   w\<lparr>consecutiveFailures := consecutiveFailures w + 1,
                     retryTracker := (retryTracker w)(operationId := None)\<rparr>))
       \<and> (fullProtectionMode n gtfs wd w = Some (r, wd', w') \<longrightarrow>
            (\<exists>evs. retryLog wd' = retryLog wd @ evs
                 \<and> list_all (wellAnnounced (retries (config w))) evs
                 \<and> calls wd' \<le> calls wd + length evs + 1
                 \<and> clock wd + sum_list (map (fst \<circ> snd) evs) \<le> clock wd'))"
proof (intro conjI impI)
  have count: "fst (getCurrentRetryCount operationId w) = a"
    using assms by (simp add: getCurrentRetryCount_def Let_def)
  have bumped: "snd (getCurrentRetryCount operationId w)
      = w\<lparr>retryTracker := (retryTracker w)(operationId \<mapsto> a + 1)\<rparr>"
    using assms by (simp add: getCurrentRetryCount_def Let_def)
  {
    assume h: "code err \<noteq> Some ''CIRCUIT_OPEN''
            \<and> shouldRetry err (classifyError err) \<and> int a < retries (config w)"
    then show "handleUpdateError n err operationId gtfs wd w =
             fullProtectionMode n gtfs
               (wd\<lparr>retryLog := retryLog wd @ [(operationId, min (2 ^ (a + 1) * 1000) 30000, a + 1)],
                   clock := clock wd + min (2 ^ (a + 1) * 1000) 30000\<rparr>)
               (tick (clock wd + min (2 ^ (a + 1) * 1000) 30000)
                  (w\<lparr>retryTracker := (retryTracker w)(operationId \<mapsto> a + 1)\<rparr>))"
      using handleUpdateError_retry[of err operationId w n gtfs wd]
      unfolding count bumped by (simp add: getRetryDelay_def)
  }
  {
    assume h: "code err \<noteq> Some ''CIRCUIT_OPEN''
            \<and> \<not> (shouldRetry err (classifyError err) \<and> int a < retries (config w))"
    then show "handleUpdateError n err operationId gtfs wd w =
             Some (Inr (Fallback (getGracefulFallback (clock wd) w)), wd,
                   w\<lparr>consecutiveFailures := consecutiveFailures w + 1,
                     retryTracker := (retryTracker w)(operationId := None)\<rparr>)"
      using handleUpdateError_give_up[of err operationId w n gtfs wd]
      unfolding count by (auto simp: getGracefulFallback_def)
  }
  {
    assume "fullProtectionMode n gtfs wd w = Some (r, wd', w')"
    with run_trace[of n] have "retriesAsAnnounced (retries (config w)) 1 wd wd'"
      by blast
    then show "\<exists>evs. retryLog wd' = retryLog wd @ evs
                 \<and> list_all (wellAnnounced (retries (config w))) evs
                 \<and> calls wd' \<le> calls wd + length evs + 1
                 \<and> clock wd + sum_list (map (fst \<circ> snd) evs) \<le> clock wd'"
      by (simp add: retriesAsAnnounced_def)
  }
qed


theorem retry_policy_witness:
  "handleUpdateError 9 fetchFailed (GtfsRt 1000) alwaysFetchFailed
       \<lparr> clock = 1010, calls = 1, retryLog = [] \<rparr> (newRobustGtfsWrapper defaultEnvironment)
     = fullProtectionMode 9 alwaysFetchFailed
         \<lparr> clock = 3010, calls = 1, retryLog = [(GtfsRt 1000, 2000, 1)] \<rparr>
         (tick 3010 ((newRobustGtfsWrapper defaultEnvironment)
            \<lparr>retryTracker := (retryTracker (newRobustGtfsWrapper defaultEnvironment))
                               (GtfsRt 1000 \<mapsto> 1)\<rparr>))
   \<and> (\<exists>w'. handleUpdateError 9 dataFormatError (GtfsRt 1000) alwaysDataFormatError
              \<lparr> clock = 1010, calls = 1, retryLog = [] \<rparr> (newRobustGtfsWrapper defaultEnvironment)
            = Some (Inr (Fallback (getGracefulFallback 1010 (newRobustGtfsWrapper defaultEnvironment))),
                    \<lparr> clock = 1010, calls = 1, retryLog = [] \<rparr>, w'))
   \<and> (\<exists>evs. map_option retryLog (worldOf persistentFailureRun) = Some evs
          \<and> list_all (wellAnnounced 2) evs
          \<and> map_option calls (worldOf persistentFailureRun) = Some (length evs)
          \<and> map_option clock (worldOf persistentFailureRun) = Some 11050)"
proof -
  let ?fresh = "newRobustGtfsWrapper defaultEnvironment"
  let ?wd = "\<lparr> clock = 1010, calls = 1, retryLog = [] \<rparr>"
  have a: "(0::nat) = (case retryTracker ?fresh (GtfsRt 1000) of None \<Rightarrow> 0 | Some c \<Rightarrow> c)"
    by (simp add: newRobustGtfsWrapper_def Let_def)
  have retryable: "code fetchFailed \<noteq> Some ''CIRCUIT_OPEN''
      \<and> shouldRetry fetchFailed (classifyError fetchFailed) \<and> int 0 < retries (config ?fresh)"
    by code_simp
  have final: "code dataFormatError \<noteq> Some ''CIRCUIT_OPEN''
      \<and> \<not> (shouldRetry dataFormatError (classifyError dataFormatError) \<and> int 0 < retries (config ?fresh))"
    by code_simp
  have one: "handleUpdateError 9 fetchFailed (GtfsRt 1000) alwaysFetchFailed ?wd ?fresh
     = fullProtectionMode 9 alwaysFetchFailed
         \<lparr> clock = 3010, calls = 1, retryLog = [(GtfsRt 1000, 2000, 1)] \<rparr>
         (tick 3010 (?fresh\<lparr>retryTracker := (retryTracker ?fresh)(GtfsRt 1000 \<mapsto> 1)\<rparr>))"
    using retry_policy[OF a, of fetchFailed 9 alwaysFetchFailed ?wd] retryable
    by simp
  have two: "\<exists>w'. handleUpdateError 9 dataFormatError (GtfsRt 1000) alwaysDataFormatError ?wd ?fresh
            = Some (Inr (Fallback (getGracefulFallback 1010 ?fresh)), ?wd, w')"
    using retry_policy[OF a, of dataFormatError 9 alwaysDataFormatError ?wd] final
    by simp
  have "persistentFailureRun \<noteq> None"
    by code_simp
  then obtain r wd' w' where run: "persistentFailureRun = Some (r, wd', w')"
    by auto
  have limit: "retries (config ?fresh) = 2"
    by code_simp
  have start: "retryLog startOfDay = []" "calls startOfDay = 0"
    by (simp_all add: startOfDay_def)
  have ended: "map_option calls (worldOf persistentFailureRun) = Some 5"
    "map_option clock (worldOf persistentFailureRun) = Some 11050"
    "map_option (length \<circ> retryLog) (worldOf persistentFailureRun) = Some 5"
    by code_simp+
  from retry_policy[OF a, of _ 10 alwaysFetchFailed startOfDay r wd' w'] run
  obtain evs where evs: "retryLog wd' = retryLog startOfDay @ evs"
      "list_all (wellAnnounced (retries (config ?fresh))) evs"
    unfolding persistentFailureRun_def by blast
  have three: "\<exists>evs. map_option retryLog (worldOf persistentFailureRun) = Some evs
          \<and> list_all (wellAnnounced 2) evs
          \<and> map_option calls (worldOf persistentFailureRun) = Some (length evs)
          \<and> map_option clock (worldOf persistentFailureRun) = Some 11050"
  proof -
    have fin: "calls wd' = 5" "clock wd' = 11050" "length (retryLog wd') = 5"
      using ended unfolding run worldOf_def by simp_all
    have "map_option retryLog (worldOf persistentFailureRun) = Some evs"
      using evs(1) start unfolding run worldOf_def by simp
    moreover have "list_all (wellAnnounced 2) evs"
      using evs(2) limit by simp
    moreover have "map_option calls (worldOf persistentFailureRun) = Some (length evs)"
      using evs(1) start fin unfolding run worldOf_def by simp
    moreover have "map_option clock (worldOf persistentFailureRun) = Some 11050"
      using fin unfolding run worldOf_def by simp
    ultimately show ?thesis by blast
  qed
  show ?thesis
    using one two three by blast
qed

end
